theory Spec2Isabelle
  imports Complex_Main
begin

section \<open>Data model of the path editor (src/index.tsx)\<close>

text \<open>
  JavaScript numbers are modelled as real numbers: arithmetic is exact, there is no
  rounding, overflow or NaN. The one non-finite value the source writes down itself,
  \<open>Infinity\<close> as the start value of a minimum search, is kept as a value of its own
  (\<open>num\<close>). Properties the spec states "within floating tolerance" are proved as exact
  equalities of this real-number model.

  The nearest-point scan of the symmetry pick is the one place where an overflow decides
  which branch a handler takes. It is given a second time over \<open>double\<close>, numbers with
  overflow to the infinities and NaN (\<open>closestStepD\<close>, \<open>edgeStepD\<close>); the two scans agree
  when no coordinate exceeds \<open>COORD_BOUND\<close> in magnitude.

  The fields \<open>x\<close>, \<open>y\<close> of a point are called \<open>px\<close>, \<open>py\<close> and the field
  \<open>type\<close> of a node \<open>ntype\<close>.
\<close>

record Point =
  px :: real
  py :: real

datatype NodeType = Corner | Smooth

record Node =
  anchor :: Point
  ctrl1 :: Point
  ctrl2 :: Point
  ntype :: NodeType

record HistoryState =
  nodes :: "Node list"
  isPathClosed :: bool

record ViewState =
  zoom :: real
  pan :: Point

datatype DragType = DragAnchor | DragCtrl1 | DragCtrl2

datatype SymmetryState = Inactive | PickingEdge

text \<open>The user-visible reports: the source calls \<open>alert(t('notStraightEdgeError'))\<close>.\<close>

datatype Alert = NotStraightEdgeError

text \<open>
  Reading a field of \<open>undefined\<close> (an array read out of range followed by a field access)
  raises a TypeError in JavaScript.
\<close>

datatype error = TypeError

text \<open>
  The state of the component \<open>App\<close>: the \<open>useState\<close> cells and the \<open>useRef\<close> cells the
  handlers read and write. The live path (\<open>nodes\<close>, \<open>isPathClosed\<close>) is the part a history
  entry snapshots, so the state extends \<open>HistoryState\<close>. \<open>alerts\<close> records the calls of
  \<open>alert\<close>, latest last.
\<close>

record App = HistoryState +
  draggedInfo :: "(nat \<times> DragType) option"
  selectedNodeIndex :: "nat option"
  isSnapEnabled :: bool
  viewState :: ViewState
  isPanning :: bool
  isSpacePressed :: bool
  symmetryState :: SymmetryState
  wasDragging :: bool
  mouseDownPos :: "Point option"
  panStartPos :: "Point option"
  history :: "HistoryState list"
  historyIndex :: nat
  alerts :: "Alert list"

definition SMOOTHING_FACTOR :: real where "SMOOTHING_FACTOR = 0.25"
definition INSERT_THRESHOLD :: real where "INSERT_THRESHOLD = 10"
definition DRAG_THRESHOLD :: real where "DRAG_THRESHOLD = 3"
definition SNAP_GRID_SIZE :: real where "SNAP_GRID_SIZE = 10"
definition MIN_ZOOM :: real where "MIN_ZOOM = 0.1"
definition MAX_ZOOM :: real where "MAX_ZOOM = 10"

text \<open>The state \<open>App\<close> starts in (the initial values of the \<open>useState\<close> calls).\<close>

definition initialApp :: App where
  "initialApp =
     \<lparr> nodes = [], isPathClosed = False,
       draggedInfo = None, selectedNodeIndex = None, isSnapEnabled = False,
       viewState = \<lparr> zoom = 0.25, pan = \<lparr> px = 0, py = 0 \<rparr> \<rparr>,
       isPanning = False, isSpacePressed = False, symmetryState = Inactive,
       wasDragging = False, mouseDownPos = None, panStartPos = None,
       history = [\<lparr> nodes = [], isPathClosed = False \<rparr>], historyIndex = 0,
       alerts = [] \<rparr>"

section \<open>History\<close>

text \<open>
  \<open>updateStateAndHistory\<close> (lines 172-180): \<open>history.slice(0, historyIndex + 1)\<close> is
  \<open>take\<close>, \<open>push\<close> appends, and the index becomes \<open>newHistory.length - 1\<close>.
\<close>

definition updateStateAndHistory :: "Node list \<Rightarrow> bool \<Rightarrow> App \<Rightarrow> App" where
  "updateStateAndHistory newNodes newIsPathClosed s =
     (let newHistory = take (historyIndex s + 1) (history s)
                         @ [\<lparr> nodes = newNodes, isPathClosed = newIsPathClosed \<rparr>]
      in s\<lparr> nodes := newNodes, isPathClosed := newIsPathClosed,
            history := newHistory, historyIndex := length newHistory - 1 \<rparr>)"

text \<open>
  \<open>undo\<close> and \<open>redo\<close> (lines 552-568). \<open>history[newIndex].nodes\<close> raises a TypeError when
  \<open>newIndex\<close> is not an index of \<open>history\<close>. In \<open>redo\<close> the test
  \<open>historyIndex < history.length - 1\<close> is over the integers in the source; over the
  naturals it is \<open>historyIndex + 1 < length history\<close>.
\<close>

definition undo :: "App \<Rightarrow> error + App" where
  "undo s =
     (if historyIndex s > 0 then
        (let newIndex = historyIndex s - 1 in
         if newIndex < length (history s) then
           Inr (s\<lparr> historyIndex := newIndex,
                   nodes := nodes (history s ! newIndex),
                   isPathClosed := isPathClosed (history s ! newIndex) \<rparr>)
         else Inl TypeError)
      else Inr s)"

definition redo :: "App \<Rightarrow> error + App" where
  "redo s =
     (if historyIndex s + 1 < length (history s) then
        (let newIndex = historyIndex s + 1 in
           Inr (s\<lparr> historyIndex := newIndex,
                   nodes := nodes (history s ! newIndex),
                   isPathClosed := isPathClosed (history s ! newIndex) \<rparr>))
      else Inr s)"

text \<open>Calling a command \<open>n\<close> times in a row, stopping at the first error.\<close>

fun repeatedly :: "nat \<Rightarrow> ('a \<Rightarrow> error + 'a) \<Rightarrow> 'a \<Rightarrow> error + 'a" where
  "repeatedly 0 f s = Inr s"
| "repeatedly (Suc n) f s = (case f s of Inl e \<Rightarrow> Inl e | Inr s' \<Rightarrow> repeatedly n f s')"

section \<open>Numeric helpers\<close>

text \<open>
  \<open>Infinity\<close> is the only non-finite number the handlers create themselves: the start value
  of the two minimum searches. \<open>num_less\<close> is \<open><\<close> on such numbers, \<open>num_sqrt\<close> is
  \<open>Math.sqrt\<close>.
\<close>

datatype num = Fin real | Infinity

fun num_less :: "num \<Rightarrow> num \<Rightarrow> bool" where
  "num_less (Fin a) (Fin b) = (a < b)"
| "num_less (Fin a) Infinity = True"
| "num_less Infinity b = False"

fun num_sqrt :: "num \<Rightarrow> num" where
  "num_sqrt (Fin a) = Fin (sqrt a)"
| "num_sqrt Infinity = Infinity"

text \<open>
  Doubles with their overflow: a finite number, the two infinities, or NaN. An operation on
  finite numbers is exact unless its result has magnitude \<open>2 ^ 1024\<close> or more, and then
  it is the infinity of that sign (\<open>fl\<close>); rounding of smaller results is not modelled. On
  the other values \<open>+\<close>, \<open>-\<close>, \<open>*\<close>, \<open><\<close> and \<open>Math.sqrt\<close> are those of IEEE 754:
  \<open>Infinity - Infinity\<close> and \<open>0 * Infinity\<close> are NaN, every comparison with NaN is false,
  and \<open>Infinity < Infinity\<close> is false. \<open>dsquare\<close> is \<open>Math.pow(x, 2)\<close>.
\<close>

datatype double = Num real | PInf | NInf | NaN

definition OVERFLOW :: real where "OVERFLOW = 2 ^ 1024"

definition fl :: "real \<Rightarrow> double" where
  "fl v = (if OVERFLOW \<le> v then PInf else if v \<le> - OVERFLOW then NInf else Num v)"

fun dneg :: "double \<Rightarrow> double" where
  "dneg (Num a) = Num (- a)"
| "dneg PInf = NInf"
| "dneg NInf = PInf"
| "dneg NaN = NaN"

fun dadd :: "double \<Rightarrow> double \<Rightarrow> double" where
  "dadd (Num a) (Num b) = fl (a + b)"
| "dadd NaN y = NaN"
| "dadd x NaN = NaN"
| "dadd PInf NInf = NaN"
| "dadd NInf PInf = NaN"
| "dadd PInf y = PInf"
| "dadd x PInf = PInf"
| "dadd NInf y = NInf"
| "dadd x NInf = NInf"

definition dsub :: "double \<Rightarrow> double \<Rightarrow> double" where
  "dsub x y = dadd x (dneg y)"

fun dmul :: "double \<Rightarrow> double \<Rightarrow> double" where
  "dmul (Num a) (Num b) = fl (a * b)"
| "dmul NaN y = NaN"
| "dmul x NaN = NaN"
| "dmul (Num a) PInf = (if a = 0 then NaN else if 0 < a then PInf else NInf)"
| "dmul (Num a) NInf = (if a = 0 then NaN else if 0 < a then NInf else PInf)"
| "dmul PInf (Num b) = (if b = 0 then NaN else if 0 < b then PInf else NInf)"
| "dmul NInf (Num b) = (if b = 0 then NaN else if 0 < b then NInf else PInf)"
| "dmul PInf PInf = PInf"
| "dmul PInf NInf = NInf"
| "dmul NInf PInf = NInf"
| "dmul NInf NInf = PInf"

definition dsquare :: "double \<Rightarrow> double" where
  "dsquare x = dmul x x"

fun dless :: "double \<Rightarrow> double \<Rightarrow> bool" where
  "dless (Num a) (Num b) = (a < b)"
| "dless NaN y = False"
| "dless x NaN = False"
| "dless x NInf = False"
| "dless NInf y = True"
| "dless PInf y = False"
| "dless (Num a) PInf = True"

fun dsqrt :: "double \<Rightarrow> double" where
  "dsqrt (Num a) = (if a < 0 then NaN else Num (sqrt a))"
| "dsqrt PInf = PInf"
| "dsqrt NInf = NaN"
| "dsqrt NaN = NaN"

text \<open>\<open>Math.hypot\<close>, \<open>Math.atan2\<close> (with \<open>atan2(0, 0) = 0\<close>) and \<open>Math.round\<close> (halves go up).\<close>

definition hypot :: "real \<Rightarrow> real \<Rightarrow> real" where
  "hypot a b = sqrt (a * a + b * b)"

definition atan2 :: "real \<Rightarrow> real \<Rightarrow> real" where
  "atan2 b a =
     (if 0 < a then arctan (b / a)
      else if a < 0 then (if 0 \<le> b then arctan (b / a) + pi else arctan (b / a) - pi)
      else if 0 < b then pi / 2
      else if b < 0 then - (pi / 2)
      else 0)"

definition js_round :: "real \<Rightarrow> real" where
  "js_round v = of_int \<lfloor>v + 1 / 2\<rfloor>"

text \<open>\<open>Array.prototype.slice(b, e)\<close> for \<open>0 \<le> b\<close>, \<open>0 \<le> e\<close>.\<close>

definition slice :: "nat \<Rightarrow> nat \<Rightarrow> 'a list \<Rightarrow> 'a list" where
  "slice b e xs = take (e - b) (drop b xs)"

section \<open>Geometry kernel\<close>

text \<open>\<open>getPointOnCubicBezier\<close> (lines 70-82).\<close>

definition getPointOnCubicBezier :: "real \<Rightarrow> Point \<Rightarrow> Point \<Rightarrow> Point \<Rightarrow> Point \<Rightarrow> Point" where
  "getPointOnCubicBezier t p0 p1 p2 p3 =
     (let u = 1 - t;
          tt = t * t;
          uu = u * u;
          uuu = uu * u;
          ttt = tt * t
      in \<lparr> px = uuu * px p0 + 3 * uu * t * px p1 + 3 * u * tt * px p2 + ttt * px p3,
           py = uuu * py p0 + 3 * uu * t * py p1 + 3 * u * tt * py p2 + ttt * py p3 \<rparr>)"

text \<open>
  \<open>findClosestPointOnCubicBezier\<close> (lines 85-101): the loop \<open>for (i = 0; i <= steps; i++)\<close>
  over the state \<open>(minDistanceSq, bestT)\<close>; the result is the pair \<open>(distance, t)\<close>. In real
  arithmetic \<open>distSq\<close> is always finite, so the first sample always replaces the start
  value; \<open>closestStepD\<close> below is the loop body without that assumption.
\<close>

definition steps :: nat where "steps = 30"

definition closestStep ::
  "Point \<Rightarrow> Point \<Rightarrow> Point \<Rightarrow> Point \<Rightarrow> Point \<Rightarrow> num \<times> real \<Rightarrow> nat \<Rightarrow> num \<times> real" where
  "closestStep point p0 p1 p2 p3 acc i =
     (case acc of (minDistanceSq, bestT) \<Rightarrow>
       (let t = real i / real steps;
            pt = getPointOnCubicBezier t p0 p1 p2 p3;
            distSq = (px pt - px point) ^ 2 + (py pt - py point) ^ 2
        in if num_less (Fin distSq) minDistanceSq then (Fin distSq, t)
           else (minDistanceSq, bestT)))"

definition findClosestPointOnCubicBezier ::
  "Point \<Rightarrow> Point \<Rightarrow> Point \<Rightarrow> Point \<Rightarrow> Point \<Rightarrow> num \<times> real" where
  "findClosestPointOnCubicBezier point p0 p1 p2 p3 =
     (case foldl (closestStep point p0 p1 p2 p3) (Infinity, 0) [0..<steps + 1] of
        (minDistanceSq, bestT) \<Rightarrow> (num_sqrt minDistanceSq, bestT))"

text \<open>
  The same two functions in double arithmetic, each operation in the order the source
  evaluates it (\<open>a * b * c\<close> is \<open>(a * b) * c\<close>, a sum runs from the left). Here
  \<open>distSq\<close> can be \<open>Infinity\<close>, and then \<open>distSq < minDistanceSq\<close> is false against the start
  value \<open>Infinity\<close>. The parameter \<open>t = i / steps\<close> is a quotient of two small integers and
  stays a real number.
\<close>

definition getPointOnCubicBezierD ::
  "double \<Rightarrow> Point \<Rightarrow> Point \<Rightarrow> Point \<Rightarrow> Point \<Rightarrow> double \<times> double" where
  "getPointOnCubicBezierD t p0 p1 p2 p3 =
     (let u = dsub (Num 1) t;
          tt = dmul t t;
          uu = dmul u u;
          uuu = dmul uu u;
          ttt = dmul tt t
      in (dadd (dadd (dadd (dmul uuu (Num (px p0)))
                           (dmul (dmul (dmul (Num 3) uu) t) (Num (px p1))))
                     (dmul (dmul (dmul (Num 3) u) tt) (Num (px p2))))
               (dmul ttt (Num (px p3))),
          dadd (dadd (dadd (dmul uuu (Num (py p0)))
                           (dmul (dmul (dmul (Num 3) uu) t) (Num (py p1))))
                     (dmul (dmul (dmul (Num 3) u) tt) (Num (py p2))))
               (dmul ttt (Num (py p3)))))"

definition closestStepD ::
  "Point \<Rightarrow> Point \<Rightarrow> Point \<Rightarrow> Point \<Rightarrow> Point \<Rightarrow> double \<times> real \<Rightarrow> nat \<Rightarrow> double \<times> real" where
  "closestStepD point p0 p1 p2 p3 acc i =
     (case acc of (minDistanceSq, bestT) \<Rightarrow>
       (let t = real i / real steps;
            pt = getPointOnCubicBezierD (Num t) p0 p1 p2 p3;
            distSq = dadd (dsquare (dsub (fst pt) (Num (px point))))
                          (dsquare (dsub (snd pt) (Num (py point))))
        in if dless distSq minDistanceSq then (distSq, t)
           else (minDistanceSq, bestT)))"

definition findClosestPointOnCubicBezierD ::
  "Point \<Rightarrow> Point \<Rightarrow> Point \<Rightarrow> Point \<Rightarrow> Point \<Rightarrow> double \<times> real" where
  "findClosestPointOnCubicBezierD point p0 p1 p2 p3 =
     (case foldl (closestStepD point p0 p1 p2 p3) (PInf, 0) [0..<steps + 1] of
        (minDistanceSq, bestT) \<Rightarrow> (dsqrt minDistanceSq, bestT))"

section \<open>The symmetry operation\<close>

text \<open>
  The edge scan of \<open>handleSymmetryEdgePick\<close> (lines 220-233) over the state
  \<open>(closestEdgeIndex, minDistance)\<close>, started at \<open>(-1, Infinity)\<close>.
\<close>

definition edgeStep :: "Point \<Rightarrow> Node list \<Rightarrow> int \<times> num \<Rightarrow> nat \<Rightarrow> int \<times> num" where
  "edgeStep point ns acc i =
     (case acc of (closestEdgeIndex, minDistance) \<Rightarrow>
       (let p0 = anchor (ns ! i);
            p3 = anchor (ns ! ((i + 1) mod length ns));
            p1 = ctrl2 (ns ! i);
            p2 = ctrl1 (ns ! ((i + 1) mod length ns));
            distance = fst (findClosestPointOnCubicBezier point p0 p1 p2 p3)
        in if num_less distance minDistance then (int i, distance)
           else (closestEdgeIndex, minDistance)))"

definition closestEdgeScan :: "Point \<Rightarrow> Node list \<Rightarrow> int \<times> num" where
  "closestEdgeScan point ns = foldl (edgeStep point ns) (- 1, Infinity) [0..<length ns]"

text \<open>The same scan in double arithmetic.\<close>

definition edgeStepD :: "Point \<Rightarrow> Node list \<Rightarrow> int \<times> double \<Rightarrow> nat \<Rightarrow> int \<times> double" where
  "edgeStepD point ns acc i =
     (case acc of (closestEdgeIndex, minDistance) \<Rightarrow>
       (let p0 = anchor (ns ! i);
            p3 = anchor (ns ! ((i + 1) mod length ns));
            p1 = ctrl2 (ns ! i);
            p2 = ctrl1 (ns ! ((i + 1) mod length ns));
            distance = fst (findClosestPointOnCubicBezierD point p0 p1 p2 p3)
        in if dless distance minDistance then (int i, distance)
           else (closestEdgeIndex, minDistance)))"

definition closestEdgeScanD :: "Point \<Rightarrow> Node list \<Rightarrow> int \<times> double" where
  "closestEdgeScanD point ns = foldl (edgeStepD point ns) (- 1, PInf) [0..<length ns]"

text \<open>The straightness test (lines 247-249).\<close>

definition isStraight :: "Point \<Rightarrow> Point \<Rightarrow> Point \<Rightarrow> Point \<Rightarrow> bool" where
  "isStraight pA pB ctrlA ctrlB \<longleftrightarrow>
     \<bar>(px pB - px pA) * (py ctrlA - py pA) - (py pB - py pA) * (px ctrlA - px pA)\<bar> < 1 / 1000 \<and>
     \<bar>(px pB - px pA) * (py ctrlB - py pA) - (py pB - py pA) * (px ctrlB - px pA)\<bar> < 1 / 1000"

text \<open>The coefficients of the axis line (lines 258-261).\<close>

definition A_coeff :: "Point \<Rightarrow> Point \<Rightarrow> real" where
  "A_coeff pA pB = py pB - py pA"

definition B_coeff :: "Point \<Rightarrow> Point \<Rightarrow> real" where
  "B_coeff pA pB = px pA - px pB"

definition C_coeff :: "Point \<Rightarrow> Point \<Rightarrow> real" where
  "C_coeff pA pB = px pB * py pA - py pB * px pA"

definition D_coeff :: "Point \<Rightarrow> Point \<Rightarrow> real" where
  "D_coeff pA pB = A_coeff pA pB * A_coeff pA pB + B_coeff pA pB * B_coeff pA pB"

text \<open>
  \<open>reflectPoint\<close> (lines 263-270), a closure over the four coefficients, here over the
  axis points \<open>pA\<close>, \<open>pB\<close> they are computed from.
\<close>

definition reflectPoint :: "Point \<Rightarrow> Point \<Rightarrow> Point \<Rightarrow> Point" where
  "reflectPoint pA pB p =
     (if D_coeff pA pB = 0 then p
      else (let val = A_coeff pA pB * px p + B_coeff pA pB * py p + C_coeff pA pB
            in \<lparr> px = px p - 2 * A_coeff pA pB * val / D_coeff pA pB,
                 py = py p - 2 * B_coeff pA pB * val / D_coeff pA pB \<rparr>))"

text \<open>
  The same function with its two divisions made partial: a division by zero has no real
  number as its result (JavaScript gives NaN or an infinity), and \<open>None\<close> stands for that.
\<close>

definition checked_div :: "real \<Rightarrow> real \<Rightarrow> real option" where
  "checked_div a b = (if b = 0 then None else Some (a / b))"

definition reflectPoint_checked :: "Point \<Rightarrow> Point \<Rightarrow> Point \<Rightarrow> Point option" where
  "reflectPoint_checked pA pB p =
     (if D_coeff pA pB = 0 then Some p
      else (let val = A_coeff pA pB * px p + B_coeff pA pB * py p + C_coeff pA pB
            in case checked_div (2 * A_coeff pA pB * val) (D_coeff pA pB) of
                 None \<Rightarrow> None
               | Some qx \<Rightarrow>
                  (case checked_div (2 * B_coeff pA pB * val) (D_coeff pA pB) of
                     None \<Rightarrow> None
                   | Some qy \<Rightarrow> Some \<lparr> px = px p - qx, py = py p - qy \<rparr>)))"

text \<open>\<open>reflectNode\<close> (lines 272-277) and the handle swap of lines 294-298.\<close>

definition reflectNode :: "Point \<Rightarrow> Point \<Rightarrow> Node \<Rightarrow> Node" where
  "reflectNode pA pB node =
     \<lparr> anchor = reflectPoint pA pB (anchor node),
       ctrl1 = reflectPoint pA pB (ctrl1 node),
       ctrl2 = reflectPoint pA pB (ctrl2 node),
       ntype = ntype node \<rparr>"

definition swapHandles :: "Node \<Rightarrow> Node" where
  "swapHandles node = node\<lparr> ctrl1 := ctrl2 node, ctrl2 := ctrl1 node \<rparr>"

text \<open>
  The loop of lines 281-285 that collects the body from B around to A. It runs until
  \<open>currentIndex\<close> meets \<open>axisNode1Index\<close>, so as a function it is partial: \<open>None\<close> is a
  loop that never ends.
\<close>

partial_function (option) bodyLoop :: "Node list \<Rightarrow> nat \<Rightarrow> nat \<Rightarrow> Node list \<Rightarrow> Node list option" where
  "bodyLoop ns axisNode1Index currentIndex bodyPath =
     (if currentIndex \<noteq> axisNode1Index
      then bodyLoop ns axisNode1Index ((currentIndex + 1) mod length ns) (bodyPath @ [ns ! currentIndex])
      else Some bodyPath)"

text \<open>
  \<open>handleSymmetryEdgePick\<close> (lines 214-321). \<open>None\<close>: the body loop does not end.
\<close>

definition handleSymmetryEdgePick :: "Point \<Rightarrow> App \<Rightarrow> App option" where
  "handleSymmetryEdgePick point s =
     (if \<not> isPathClosed s \<or> length (nodes s) < 3 then Some (s\<lparr> symmetryState := Inactive \<rparr>)
      else
       (let closestEdgeIndex = fst (closestEdgeScan point (nodes s)) in
        if closestEdgeIndex = - 1 then Some (s\<lparr> symmetryState := Inactive \<rparr>)
        else
         (let axisNode1Index = nat closestEdgeIndex;
              axisNode2Index = (nat closestEdgeIndex + 1) mod length (nodes s);
              pA = anchor (nodes s ! axisNode1Index);
              pB = anchor (nodes s ! axisNode2Index);
              ctrlA = ctrl2 (nodes s ! axisNode1Index);
              ctrlB = ctrl1 (nodes s ! axisNode2Index)
          in if \<not> isStraight pA pB ctrlA ctrlB
             then Some (s\<lparr> alerts := alerts s @ [NotStraightEdgeError], symmetryState := Inactive \<rparr>)
             else
              (case bodyLoop (nodes s) axisNode1Index axisNode2Index [] of
                 None \<Rightarrow> None
               | Some collected \<Rightarrow>
                  (let bodyPath = collected @ [nodes s ! axisNode1Index];
                       intermediateNodes = slice 1 (length bodyPath - 1) bodyPath;
                       mirroredIntermediateNodes =
                         map swapHandles (rev (map (reflectNode pA pB) intermediateNodes));
                       newA = (nodes s ! axisNode1Index)
                                \<lparr> ctrl2 := reflectPoint pA pB (ctrl1 (nodes s ! axisNode1Index)),
                                  ntype := Smooth \<rparr>;
                       newB = (nodes s ! axisNode2Index)
                                \<lparr> ctrl1 := reflectPoint pA pB (ctrl2 (nodes s ! axisNode2Index)),
                                  ntype := Smooth \<rparr>;
                       combinedNodes =
                         [newA] @ mirroredIntermediateNodes @ [newB] @ intermediateNodes
                   in Some ((updateStateAndHistory combinedNodes True s)
                              \<lparr> symmetryState := Inactive \<rparr>))))))"

text \<open>
  Lines 214-240 of the same handler with the scan in double arithmetic: which of the first
  two early returns is taken, or the index of the axis edge the rest of the handler works
  on.
\<close>

datatype SymmetryPickBranch = NotEligible | NoEdgeFound | AxisEdge nat

definition symmetryPickBranch :: "Point \<Rightarrow> App \<Rightarrow> SymmetryPickBranch" where
  "symmetryPickBranch point s =
     (if \<not> isPathClosed s \<or> length (nodes s) < 3 then NotEligible
      else
       (let closestEdgeIndex = fst (closestEdgeScanD point (nodes s)) in
        if closestEdgeIndex = - 1 then NoEdgeFound
        else AxisEdge (nat closestEdgeIndex)))"

section \<open>View transform and pointer events\<close>

text \<open>
  What a handler reads from a mouse or wheel event, with the bounding rectangle of the svg
  element at that moment (\<open>svgRef.current.getBoundingClientRect()\<close>; \<open>None\<close> when
  \<open>svgRef.current\<close> is null).
\<close>

record DOMRect =
  rectLeft :: real
  rectTop :: real

record MouseEvent =
  clientX :: real
  clientY :: real
  ctrlKey :: bool
  deltaY :: real
  boundingRect :: "DOMRect option"

text \<open>The device-to-world map of \<open>getSVGCoordinates\<close> (lines 204-205).\<close>

definition toWorld :: "Point \<Rightarrow> ViewState \<Rightarrow> Point" where
  "toWorld d vs = \<lparr> px = (px d - px (pan vs)) / zoom vs, py = (py d - py (pan vs)) / zoom vs \<rparr>"

text \<open>\<open>getSVGCoordinates\<close> (lines 182-208) for a mouse event (the branch \<open>'clientX' in event\<close>).\<close>

definition getSVGCoordinates :: "MouseEvent \<Rightarrow> App \<Rightarrow> Point option" where
  "getSVGCoordinates ev s =
     (case boundingRect ev of
        None \<Rightarrow> None
      | Some rect \<Rightarrow>
          (let svgX = clientX ev - rectLeft rect;
               svgY = clientY ev - rectTop rect
           in Some (toWorld \<lparr> px = svgX, py = svgY \<rparr> (viewState s))))"

text \<open>\<open>snap\<close> (lines 210-212).\<close>

definition snap :: "App \<Rightarrow> real \<Rightarrow> real" where
  "snap s v = (if isSnapEnabled s then js_round (v / SNAP_GRID_SIZE) * SNAP_GRID_SIZE else v)"

text \<open>\<open>handleWheel\<close> (lines 533-550).\<close>

definition handleWheel :: "MouseEvent \<Rightarrow> App \<Rightarrow> App" where
  "handleWheel ev s =
     (case boundingRect ev of
        None \<Rightarrow> s
      | Some rect \<Rightarrow>
          (let mouseX = clientX ev - rectLeft rect;
               mouseY = clientY ev - rectTop rect;
               zoomFactor = 1.1;
               newZoom = (if deltaY ev < 0 then zoom (viewState s) * zoomFactor
                          else zoom (viewState s) / zoomFactor);
               clampedZoom = max MIN_ZOOM (min MAX_ZOOM newZoom)
           in if clampedZoom = zoom (viewState s) then s
              else
               (let newPanX = mouseX - (mouseX - px (pan (viewState s)))
                                         * (clampedZoom / zoom (viewState s));
                    newPanY = mouseY - (mouseY - py (pan (viewState s)))
                                         * (clampedZoom / zoom (viewState s))
                in s\<lparr> viewState := \<lparr> zoom = clampedZoom,
                                      pan = \<lparr> px = newPanX, py = newPanY \<rparr> \<rparr> \<rparr>)))"

section \<open>Editing operations\<close>

text \<open>
  The node edit of \<open>handleMouseMove\<close> (lines 454-476) on the copy \<open>node\<close> of the dragged
  node. The local \<open>d\<close> of the source is computed and never used.
\<close>

definition dragNode :: "DragType \<Rightarrow> Point \<Rightarrow> Node \<Rightarrow> Node" where
  "dragNode ty snappedPoint node =
     (case ty of
        DragAnchor \<Rightarrow>
          (let dx = px snappedPoint - px (anchor node);
               dy = py snappedPoint - py (anchor node)
           in node\<lparr> anchor := snappedPoint,
                    ctrl1 := \<lparr> px = px (ctrl1 node) + dx, py = py (ctrl1 node) + dy \<rparr>,
                    ctrl2 := \<lparr> px = px (ctrl2 node) + dx, py = py (ctrl2 node) + dy \<rparr> \<rparr>)
      | DragCtrl1 \<Rightarrow>
          (if ntype node = Smooth then
             (let angle = atan2 (py (anchor node) - py snappedPoint)
                                (px (anchor node) - px snappedPoint);
                  d2 = hypot (px (anchor node) - px (ctrl2 node))
                             (py (anchor node) - py (ctrl2 node))
              in node\<lparr> ctrl1 := snappedPoint,
                       ctrl2 := \<lparr> px = px (anchor node) + d2 * cos angle,
                                  py = py (anchor node) + d2 * sin angle \<rparr> \<rparr>)
           else node\<lparr> ctrl1 := snappedPoint \<rparr>)
      | DragCtrl2 \<Rightarrow>
          (if ntype node = Smooth then
             (let angle = atan2 (py (anchor node) - py snappedPoint)
                                (px (anchor node) - px snappedPoint);
                  d1 = hypot (px (anchor node) - px (ctrl1 node))
                             (py (anchor node) - py (ctrl1 node))
              in node\<lparr> ctrl2 := snappedPoint,
                       ctrl1 := \<lparr> px = px (anchor node) + d1 * cos angle,
                                  py = py (anchor node) + d1 * sin angle \<rparr> \<rparr>)
           else node\<lparr> ctrl2 := snappedPoint \<rparr>))"

text \<open>
  \<open>handleMouseMove\<close> (lines 429-480). With a drag index that is no index of \<open>nodes\<close> the
  source spreads \<open>undefined\<close> into an empty object and goes on with a node that has no
  anchor (an anchor drag raises a TypeError at once); the model stops there with the error
  value.
\<close>

definition handleMouseMove :: "MouseEvent \<Rightarrow> App \<Rightarrow> error + App" where
  "handleMouseMove ev s =
     (if isPanning s \<and> panStartPos s \<noteq> None then
        (let dx = clientX ev - px (the (panStartPos s));
             dy = clientY ev - py (the (panStartPos s))
         in Inr (s\<lparr> viewState := (viewState s)
                        \<lparr> pan := \<lparr> px = px (pan (viewState s)) + dx,
                                   py = py (pan (viewState s)) + dy \<rparr> \<rparr>,
                    panStartPos := Some \<lparr> px = clientX ev, py = clientY ev \<rparr> \<rparr>))
      else
       (case mouseDownPos s of
          None \<Rightarrow> Inr s
        | Some downPos \<Rightarrow>
           (case getSVGCoordinates ev s of
              None \<Rightarrow> Inr s
            | Some point \<Rightarrow>
               (let dist = hypot (px point - px downPos) (py point - py downPos);
                    s1 = (if dist > DRAG_THRESHOLD / zoom (viewState s)
                          then s\<lparr> wasDragging := True \<rparr> else s)
                in case draggedInfo s of
                     None \<Rightarrow> Inr s1
                   | Some (index, ty) \<Rightarrow>
                       if index < length (nodes s) then
                         (let snappedPoint = \<lparr> px = snap s (px point), py = snap s (py point) \<rparr>;
                              node = dragNode ty snappedPoint (nodes s ! index)
                          in Inr (s1\<lparr> nodes := (nodes s)[index := node] \<rparr>))
                       else Inl TypeError))))"

text \<open>
  The node list built by a plain click (\<open>handleMouseUp\<close>, lines 495-514): the new corner
  node, and the joint with the previous last node.
\<close>

definition appendNode :: "Point \<Rightarrow> Node list \<Rightarrow> Node list" where
  "appendNode snappedPoint ns =
     (let newNode = \<lparr> anchor = snappedPoint,
                      ctrl1 = \<lparr> px = px snappedPoint - 50, py = py snappedPoint \<rparr>,
                      ctrl2 = \<lparr> px = px snappedPoint + 50, py = py snappedPoint \<rparr>,
                      ntype = Corner \<rparr>
      in if length ns > 0 then
           (let prevNode = ns ! (length ns - 1);
                dx = px (anchor newNode) - px (anchor prevNode);
                dy = py (anchor newNode) - py (anchor prevNode);
                angle = atan2 dy dx;
                dist = hypot dx dy * SMOOTHING_FACTOR;
                updatedPrevNode =
                  prevNode\<lparr> ctrl2 := \<lparr> px = px (anchor prevNode) + dist * cos angle,
                                        py = py (anchor prevNode) + dist * sin angle \<rparr> \<rparr>;
                newNode' =
                  newNode\<lparr> ctrl1 := \<lparr> px = px (anchor newNode) - dist * cos angle,
                                       py = py (anchor newNode) - dist * sin angle \<rparr> \<rparr>
            in ns[length ns - 1 := updatedPrevNode] @ [newNode'])
         else ns @ [newNode])"

text \<open>The click branch of \<open>handleMouseUp\<close> as a whole (lines 494-516).\<close>

definition clickAppend :: "Point \<Rightarrow> App \<Rightarrow> App" where
  "clickAppend point s =
     (let snappedPoint = \<lparr> px = snap s (px point), py = snap s (py point) \<rparr>;
          newNodes = appendNode snappedPoint (nodes s)
      in (updateStateAndHistory newNodes (isPathClosed s) s)
           \<lparr> selectedNodeIndex := Some (length newNodes - 1) \<rparr>)"

text \<open>\<open>handleMouseUp\<close> (lines 482-521).\<close>

definition handleMouseUp :: "MouseEvent \<Rightarrow> App \<Rightarrow> App" where
  "handleMouseUp ev s =
     (let s1 = (if isPanning s then s\<lparr> isPanning := False, panStartPos := None \<rparr> else s)
      in case getSVGCoordinates ev s of
           None \<Rightarrow> s1
         | Some point \<Rightarrow>
            (let s2 = (if draggedInfo s \<noteq> None
                       then updateStateAndHistory (nodes s) (isPathClosed s) s1
                       else if \<not> wasDragging s \<and> \<not> ctrlKey ev \<and> \<not> isSpacePressed s
                       then clickAppend point s1
                       else s1)
             in s2\<lparr> draggedInfo := None, mouseDownPos := None \<rparr>))"

text \<open>
  The search for the segment to insert on (\<open>handleMouseDown\<close>, lines 375-390) over the
  state \<open>(bestInsertPos, minDistance)\<close>.
\<close>

definition insertStep ::
  "Point \<Rightarrow> Node list \<Rightarrow> (nat \<times> real) option \<times> num \<Rightarrow> nat \<Rightarrow> (nat \<times> real) option \<times> num" where
  "insertStep point ns acc i =
     (case acc of (bestInsertPos, minDistance) \<Rightarrow>
       (let p0 = anchor (ns ! i);
            p1 = ctrl2 (ns ! i);
            p2 = ctrl1 (ns ! ((i + 1) mod length ns));
            p3 = anchor (ns ! ((i + 1) mod length ns))
        in case findClosestPointOnCubicBezier point p0 p1 p2 p3 of
             (distance, t) \<Rightarrow>
               if num_less distance minDistance then (Some (i, t), distance)
               else (bestInsertPos, minDistance)))"

definition findInsertPos :: "Point \<Rightarrow> App \<Rightarrow> (nat \<times> real) option" where
  "findInsertPos point s =
     fst (foldl (insertStep point (nodes s))
            (None, Fin (INSERT_THRESHOLD / zoom (viewState s)))
            [0..<(if isPathClosed s then length (nodes s) else length (nodes s) - 1)])"

text \<open>
  The split of segment \<open>index\<close> at \<open>t\<close> (lines 393-417), on node values: the node
  values of the array \<open>newNodes\<close> after the two writes to the neighbours' handles, one
  after the other, and \<open>splice(index + 1, 0, newNode)\<close>. The source makes the two writes
  on node objects that \<open>newNodes\<close> shares with the old array; what that does to the other
  arrays holding these objects is the subject of the object-level model below.
\<close>

definition lerp :: "real \<Rightarrow> Point \<Rightarrow> Point \<Rightarrow> Point" where
  "lerp t a b = \<lparr> px = (1 - t) * px a + t * px b, py = (1 - t) * py a + t * py b \<rparr>"

definition insertNode :: "Node list \<Rightarrow> nat \<Rightarrow> real \<Rightarrow> Node list" where
  "insertNode ns index t =
     (let p0 = anchor (ns ! index);
          p1 = ctrl2 (ns ! index);
          p2 = ctrl1 (ns ! ((index + 1) mod length ns));
          p3 = anchor (ns ! ((index + 1) mod length ns));
          p01 = lerp t p0 p1;
          p12 = lerp t p1 p2;
          p23 = lerp t p2 p3;
          p012 = lerp t p01 p12;
          p123 = lerp t p12 p23;
          newAnchor = lerp t p012 p123;
          newNode = \<lparr> anchor = newAnchor, ctrl1 = p012, ctrl2 = p123, ntype = Smooth \<rparr>;
          newNodes1 = ns[index := (ns ! index)\<lparr> ctrl2 := p01 \<rparr>];
          newNodes2 = newNodes1[(index + 1) mod length ns :=
                        (newNodes1 ! ((index + 1) mod length ns))\<lparr> ctrl1 := p23 \<rparr>]
      in take (index + 1) newNodes2 @ [newNode] @ drop (index + 1) newNodes2)"

text \<open>The anchor and handle hit test of \<open>handleMouseDown\<close> (lines 347-371), last node first.\<close>

definition hitNode :: "Point \<Rightarrow> App \<Rightarrow> Node \<Rightarrow> DragType option" where
  "hitNode point s node =
     (let anchorDist = hypot (px point - px (anchor node)) (py point - py (anchor node))
      in if anchorDist < 10 / zoom (viewState s) then Some DragAnchor
         else if isPathClosed s then
           (let ctrl1Dist = hypot (px point - px (ctrl1 node)) (py point - py (ctrl1 node));
                ctrl2Dist = hypot (px point - px (ctrl2 node)) (py point - py (ctrl2 node))
            in if ctrl1Dist < 8 / zoom (viewState s) then Some DragCtrl1
               else if ctrl2Dist < 8 / zoom (viewState s) then Some DragCtrl2
               else None)
         else None)"

fun hitLoop :: "Point \<Rightarrow> App \<Rightarrow> nat list \<Rightarrow> (nat \<times> DragType) option" where
  "hitLoop point s [] = None"
| "hitLoop point s (i # rest) =
     (case hitNode point s (nodes s ! i) of
        Some ty \<Rightarrow> Some (i, ty)
      | None \<Rightarrow> hitLoop point s rest)"

text \<open>
  The branch \<open>handleMouseDown\<close> (lines 323-427) takes: panning, no point (the svg element
  is not mounted), the symmetry pick, a drag of the hit part of a node, an insertion at the
  position found, or nothing (the selection is cleared). What the insertion branch then does
  is \<open>insertNode\<close> on node values and \<open>insertNodeH\<close> on node objects; the symmetry pick is
  \<open>handleSymmetryEdgePick\<close>.
\<close>

datatype MouseDownBranch =
    StartPan
  | NoPoint
  | SymmetryPick Point
  | StartDrag nat DragType
  | InsertAt nat real
  | Deselect

definition handleMouseDownBranch :: "MouseEvent \<Rightarrow> App \<Rightarrow> MouseDownBranch" where
  "handleMouseDownBranch ev s =
     (if isSpacePressed s then StartPan
      else
       (case getSVGCoordinates ev s of
          None \<Rightarrow> NoPoint
        | Some point \<Rightarrow>
            if symmetryState s = PickingEdge then SymmetryPick point
            else
             (case hitLoop point s (rev [0..<length (nodes s)]) of
                Some (i, ty) \<Rightarrow> StartDrag i ty
              | None \<Rightarrow>
                 (case (if length (nodes s) > 0 then findInsertPos point s else None) of
                    Some (index, t) \<Rightarrow> InsertAt index t
                  | None \<Rightarrow> Deselect))))"

text \<open>\<open>toggleClosePath\<close> (lines 616-638).\<close>

definition toggleClosePath :: "App \<Rightarrow> App" where
  "toggleClosePath s =
     (let newNodes = nodes s;
          newIsPathClosed = (\<not> isPathClosed s)
      in if newIsPathClosed \<and> length newNodes \<ge> 2 then
           (let firstNode = newNodes ! 0;
                lastNode = newNodes ! (length newNodes - 1);
                dx = px (anchor firstNode) - px (anchor lastNode);
                dy = py (anchor firstNode) - py (anchor lastNode);
                angle = atan2 dy dx;
                dist = hypot dx dy * SMOOTHING_FACTOR;
                updatedLastNode =
                  lastNode\<lparr> ctrl2 := \<lparr> px = px (anchor lastNode) + dist * cos angle,
                                        py = py (anchor lastNode) + dist * sin angle \<rparr> \<rparr>;
                updatedFirstNode =
                  firstNode\<lparr> ctrl1 := \<lparr> px = px (anchor firstNode) - dist * cos angle,
                                         py = py (anchor firstNode) - dist * sin angle \<rparr> \<rparr>
            in updateStateAndHistory
                 ((newNodes[0 := updatedFirstNode])[length newNodes - 1 := updatedLastNode])
                 newIsPathClosed s)
         else updateStateAndHistory newNodes newIsPathClosed s)"

section \<open>Node objects and the arrays that share them\<close>

text \<open>
  A node is a JavaScript object, and the arrays \<open>nodes\<close> and \<open>history[i].nodes\<close> hold
  references to node objects. This section models that level: \<open>heap\<close> is the store of node
  objects (a reference is an index into it, a new object goes to the end), and the live
  array and the history entries are lists of references. Arrays themselves are never
  written after they are shared (\<open>[...nodes]\<close>, \<open>slice\<close> and \<open>filter\<close> build new ones), and
  points are only ever replaced as a whole, so both stay values.
\<close>

type_synonym ref = nat

record HeapApp =
  heap :: "Node list"
  nodeRefs :: "ref list"
  closedFlag :: bool
  historyRefs :: "(ref list \<times> bool) list"
  historyIdx :: nat

text \<open>An object literal or a spread copy \<open>{ ...node }\<close> creates a new object.\<close>

definition alloc :: "Node \<Rightarrow> Node list \<Rightarrow> ref \<times> Node list" where
  "alloc v h = (length h, h @ [v])"

text \<open>The node values an array of references stands for.\<close>

definition deref :: "Node list \<Rightarrow> ref list \<Rightarrow> Node list" where
  "deref h rs = map (\<lambda>r. h ! r) rs"

definition initialHeapApp :: HeapApp where
  "initialHeapApp = \<lparr> heap = [], nodeRefs = [], closedFlag = False,
                       historyRefs = [([], False)], historyIdx = 0 \<rparr>"

text \<open>\<open>updateStateAndHistory\<close> (lines 172-180): the entry stores the array it is given.\<close>

definition updateStateAndHistoryH :: "ref list \<Rightarrow> bool \<Rightarrow> HeapApp \<Rightarrow> HeapApp" where
  "updateStateAndHistoryH newNodes newIsPathClosed s =
     (let newHistory = take (historyIdx s + 1) (historyRefs s) @ [(newNodes, newIsPathClosed)]
      in s\<lparr> nodeRefs := newNodes, closedFlag := newIsPathClosed,
            historyRefs := newHistory, historyIdx := length newHistory - 1 \<rparr>)"

text \<open>\<open>undo\<close> (lines 552-559): the live array becomes the array of the entry.\<close>

definition undoH :: "HeapApp \<Rightarrow> error + HeapApp" where
  "undoH s =
     (if historyIdx s > 0 then
        (let newIndex = historyIdx s - 1 in
         if newIndex < length (historyRefs s) then
           Inr (s\<lparr> historyIdx := newIndex,
                   nodeRefs := fst (historyRefs s ! newIndex),
                   closedFlag := snd (historyRefs s ! newIndex) \<rparr>)
         else Inl TypeError)
      else Inr s)"

text \<open>
  The insertion branch of \<open>handleMouseDown\<close> (lines 393-419) for the segment \<open>index\<close> and
  parameter \<open>t\<close> found by the search. \<open>newNodes = [...nodes]\<close> is a new array of the same
  references, so \<open>newNodes[index].ctrl2 = p01\<close> and
  \<open>newNodes[(index + 1) % nodes.length].ctrl1 = p23\<close> write into the objects of the old
  array.
\<close>

definition insertNodeH :: "nat \<Rightarrow> real \<Rightarrow> HeapApp \<Rightarrow> HeapApp" where
  "insertNodeH index t s =
     (let ns = nodeRefs s;
          h = heap s;
          nx = (index + 1) mod length ns;
          p0 = anchor (h ! (ns ! index));
          p1 = ctrl2 (h ! (ns ! index));
          p2 = ctrl1 (h ! (ns ! nx));
          p3 = anchor (h ! (ns ! nx));
          p01 = lerp t p0 p1;
          p12 = lerp t p1 p2;
          p23 = lerp t p2 p3;
          p012 = lerp t p01 p12;
          p123 = lerp t p12 p23;
          newAnchor = lerp t p012 p123;
          (newNode, h1) = alloc \<lparr> anchor = newAnchor, ctrl1 = p012, ctrl2 = p123,
                                  ntype = Smooth \<rparr> h;
          newNodes = ns;
          h2 = h1[newNodes ! index := (h1 ! (newNodes ! index))\<lparr> ctrl2 := p01 \<rparr>];
          h3 = h2[newNodes ! nx := (h2 ! (newNodes ! nx))\<lparr> ctrl1 := p23 \<rparr>];
          newNodes' = take (index + 1) newNodes @ [newNode] @ drop (index + 1) newNodes
      in updateStateAndHistoryH newNodes' (closedFlag s) (s\<lparr> heap := h3 \<rparr>))"

text \<open>
  The click branch of \<open>handleMouseUp\<close> (lines 495-515): \<open>newNode\<close> is a new object, the
  previous node is copied (\<open>{ ...prevNode, ctrl2: ... }\<close>) and the copy replaces it in
  the new array; \<open>newNode.ctrl1\<close> is then written on the new object.
\<close>

definition appendNodeH :: "Point \<Rightarrow> HeapApp \<Rightarrow> HeapApp" where
  "appendNodeH snappedPoint s =
     (let ns = nodeRefs s;
          h = heap s;
          (newNode, h1) = alloc \<lparr> anchor = snappedPoint,
                                  ctrl1 = \<lparr> px = px snappedPoint - 50, py = py snappedPoint \<rparr>,
                                  ctrl2 = \<lparr> px = px snappedPoint + 50, py = py snappedPoint \<rparr>,
                                  ntype = Corner \<rparr> h
      in if length ns > 0 then
           (let prevNode = h1 ! (ns ! (length ns - 1));
                dx = px (anchor (h1 ! newNode)) - px (anchor prevNode);
                dy = py (anchor (h1 ! newNode)) - py (anchor prevNode);
                angle = atan2 dy dx;
                dist = hypot dx dy * SMOOTHING_FACTOR;
                (updatedPrevNode, h2) =
                  alloc (prevNode\<lparr> ctrl2 := \<lparr> px = px (anchor prevNode) + dist * cos angle,
                                              py = py (anchor prevNode) + dist * sin angle \<rparr> \<rparr>) h1;
                h3 = h2[newNode := (h2 ! newNode)
                          \<lparr> ctrl1 := \<lparr> px = px (anchor (h2 ! newNode)) - dist * cos angle,
                                      py = py (anchor (h2 ! newNode)) - dist * sin angle \<rparr> \<rparr>]
            in updateStateAndHistoryH (ns[length ns - 1 := updatedPrevNode] @ [newNode])
                 (closedFlag s) (s\<lparr> heap := h3 \<rparr>))
         else updateStateAndHistoryH (ns @ [newNode]) (closedFlag s) (s\<lparr> heap := h1 \<rparr>))"

text \<open>
  The drag of \<open>handleMouseMove\<close> (lines 449-478): \<open>node = { ...newNodes[index] }\<close> is a
  copy, the edit is made on the copy, and the copy replaces the node in the new array.
\<close>

definition dragNodeH :: "nat \<Rightarrow> DragType \<Rightarrow> Point \<Rightarrow> HeapApp \<Rightarrow> HeapApp" where
  "dragNodeH index ty snappedPoint s =
     (let newNodes = nodeRefs s;
          (node, h1) = alloc (heap s ! (newNodes ! index)) (heap s);
          h2 = h1[node := dragNode ty snappedPoint (h1 ! node)]
      in s\<lparr> heap := h2, nodeRefs := newNodes[index := node] \<rparr>)"

section \<open>Notions used in the statements\<close>

text \<open>
  A state is \<open>synced\<close> when the live path is the history entry at the current index: true
  of \<open>initialApp\<close> and after every commit, not in the middle of a drag.
\<close>

definition synced :: "App \<Rightarrow> bool" where
  "synced s \<longleftrightarrow> historyIndex s < length (history s) \<and>
     nodes (history s ! historyIndex s) = nodes s \<and>
     isPathClosed (history s ! historyIndex s) = isPathClosed s"

text \<open>The state with the history index moved to \<open>j\<close> and the live path read from there.\<close>

definition goto :: "nat \<Rightarrow> App \<Rightarrow> App" where
  "goto j s = s\<lparr> historyIndex := j, nodes := nodes (history s ! j),
                 isPathClosed := isPathClosed (history s ! j) \<rparr>"

text \<open>A run of plain clicks at the points \<open>ps\<close>, each committing one append.\<close>

definition appends :: "Point list \<Rightarrow> App \<Rightarrow> App" where
  "appends ps s = foldl (\<lambda>s p. clickAppend p s) s ps"

text \<open>A finite, non-negative number.\<close>

definition fin_nonneg :: "num \<Rightarrow> bool" where
  "fin_nonneg v = (case v of Fin a \<Rightarrow> 0 \<le> a | Infinity \<Rightarrow> False)"

text \<open>The number of steps from index \<open>cur\<close> forward to index \<open>a\<close> on a cycle of \<open>n\<close>.\<close>

definition cyc_dist :: "nat \<Rightarrow> nat \<Rightarrow> nat \<Rightarrow> nat" where
  "cyc_dist n cur a = (if cur \<le> a then a - cur else a + n - cur)"

text \<open>
  The axis edge a pick selects (node A is \<open>nodes[axisIndex]\<close>, node B its successor), the
  straightness test on that edge, and the intermediate nodes: the nodes at the cyclic
  positions after B up to the one before A.
\<close>

definition axisIndex :: "Point \<Rightarrow> Node list \<Rightarrow> nat" where
  "axisIndex point ns = nat (fst (closestEdgeScan point ns))"

definition edgeIsStraight :: "Node list \<Rightarrow> nat \<Rightarrow> bool" where
  "edgeIsStraight ns k \<longleftrightarrow>
     isStraight (anchor (ns ! k)) (anchor (ns ! ((k + 1) mod length ns)))
       (ctrl2 (ns ! k)) (ctrl1 (ns ! ((k + 1) mod length ns)))"

definition intermediates :: "Node list \<Rightarrow> nat \<Rightarrow> Node list" where
  "intermediates ns k = map (\<lambda>j. ns ! ((k + 2 + j) mod length ns)) [0..<length ns - 2]"

text \<open>
  The point at parameter \<open>u\<close> of segment \<open>i\<close>, with the control points every loop of the
  source takes for a segment (lines 379-382, 224-227, 683-685).
\<close>

definition segmentPoint :: "Node list \<Rightarrow> nat \<Rightarrow> real \<Rightarrow> Point" where
  "segmentPoint ns i u =
     getPointOnCubicBezier u (anchor (ns ! i)) (ctrl2 (ns ! i))
       (ctrl1 (ns ! ((i + 1) mod length ns))) (anchor (ns ! ((i + 1) mod length ns)))"

text \<open>A position found by the insertion search names a node and a parameter in \<open>[0, 1]\<close>.\<close>

definition goodPos :: "nat \<Rightarrow> (nat \<times> real) option \<Rightarrow> bool" where
  "goodPos n pos = (case pos of None \<Rightarrow> True | Some (i, t) \<Rightarrow> i < n \<and> 0 \<le> t \<and> t \<le> 1)"

text \<open>Cross product, dot product and distance of points, the first two relative to \<open>c\<close>.\<close>

definition cross :: "Point \<Rightarrow> Point \<Rightarrow> Point \<Rightarrow> real" where
  "cross c a b = (px a - px c) * (py b - py c) - (py a - py c) * (px b - px c)"

definition dot :: "Point \<Rightarrow> Point \<Rightarrow> Point \<Rightarrow> real" where
  "dot c a b = (px a - px c) * (px b - px c) + (py a - py c) * (py b - py c)"

definition distance :: "Point \<Rightarrow> Point \<Rightarrow> real" where
  "distance a b = hypot (px a - px b) (py a - py b)"

text \<open>
  \<open>q\<close> is the mirror image of \<open>p\<close> in the line through \<open>a\<close> and \<open>b\<close>: the midpoint of \<open>p\<close> and
  \<open>q\<close> lies on the line and \<open>q - p\<close> is perpendicular to \<open>b - a\<close>. \<open>reflectedAcross\<close> adds
  the case of an axis of length zero, where nothing moves. A node is the mirrored copy of
  another when its anchor is the mirror image of the other's anchor, its \<open>ctrl1\<close> of the
  other's \<open>ctrl2\<close> and its \<open>ctrl2\<close> of the other's \<open>ctrl1\<close>, and the type is the same.
\<close>

definition isMirrorImage :: "Point \<Rightarrow> Point \<Rightarrow> Point \<Rightarrow> Point \<Rightarrow> bool" where
  "isMirrorImage a b p q \<longleftrightarrow>
     cross a b \<lparr> px = (px p + px q) / 2, py = (py p + py q) / 2 \<rparr> = 0 \<and>
     (px q - px p) * (px b - px a) + (py q - py p) * (py b - py a) = 0"

definition reflectedAcross :: "Point \<Rightarrow> Point \<Rightarrow> Point \<Rightarrow> Point \<Rightarrow> bool" where
  "reflectedAcross a b p q \<longleftrightarrow> (if a = b then q = p else isMirrorImage a b p q)"

definition isMirroredNode :: "Point \<Rightarrow> Point \<Rightarrow> Node \<Rightarrow> Node \<Rightarrow> bool" where
  "isMirroredNode a b original mirrored \<longleftrightarrow>
     reflectedAcross a b (anchor original) (anchor mirrored) \<and>
     reflectedAcross a b (ctrl2 original) (ctrl1 mirrored) \<and>
     reflectedAcross a b (ctrl1 original) (ctrl2 mirrored) \<and>
     ntype mirrored = ntype original"

text \<open>
  A number of the real-number scan as a double, points and nodes whose coordinates have
  magnitude at most \<open>b\<close>, and the bound under which the scan of a path cannot overflow.
\<close>

definition toDouble :: "num \<Rightarrow> double" where
  "toDouble v = (case v of Fin a \<Rightarrow> Num a | Infinity \<Rightarrow> PInf)"

definition pointWithin :: "real \<Rightarrow> Point \<Rightarrow> bool" where
  "pointWithin b p \<longleftrightarrow> \<bar>px p\<bar> \<le> b \<and> \<bar>py p\<bar> \<le> b"

definition nodeWithin :: "real \<Rightarrow> Node \<Rightarrow> bool" where
  "nodeWithin b n \<longleftrightarrow> pointWithin b (anchor n) \<and> pointWithin b (ctrl1 n) \<and> pointWithin b (ctrl2 n)"

definition COORD_BOUND :: real where "COORD_BOUND = 10 ^ 150"

text \<open>
  The live array holds each node object once, and every reference in it is an object of
  the store.
\<close>

definition wellFormedH :: "HeapApp \<Rightarrow> bool" where
  "wellFormedH s \<longleftrightarrow> distinct (nodeRefs s) \<and> (\<forall>r \<in> set (nodeRefs s). r < length (heap s))"

section \<open>Example inputs\<close>

text \<open>
  The closed square that clicks at (0,0), (100,0), (100,100), (0,100) and \<open>toggleClosePath\<close>
  build (\<open>square_from_clicks\<close> below), the same path with one handle of its first edge
  pulled off the edge, a state holding a given path in symmetry-pick mode, a smooth node, a
  wheel event, and the object-level state after clicks at (0,0) and (100,0).
\<close>

definition squareClicks :: "Point list" where
  "squareClicks = [\<lparr> px = 0, py = 0 \<rparr>, \<lparr> px = 100, py = 0 \<rparr>,
                   \<lparr> px = 100, py = 100 \<rparr>, \<lparr> px = 0, py = 100 \<rparr>]"

definition lineClicks :: "Point list" where
  "lineClicks = [\<lparr> px = 0, py = 0 \<rparr>, \<lparr> px = 100, py = 0 \<rparr>]"

definition squarePath :: "Node list" where
  "squarePath =
     [\<lparr> anchor = \<lparr> px = 0, py = 0 \<rparr>, ctrl1 = \<lparr> px = 0, py = 25 \<rparr>,
        ctrl2 = \<lparr> px = 25, py = 0 \<rparr>, ntype = Corner \<rparr>,
      \<lparr> anchor = \<lparr> px = 100, py = 0 \<rparr>, ctrl1 = \<lparr> px = 75, py = 0 \<rparr>,
        ctrl2 = \<lparr> px = 100, py = 25 \<rparr>, ntype = Corner \<rparr>,
      \<lparr> anchor = \<lparr> px = 100, py = 100 \<rparr>, ctrl1 = \<lparr> px = 100, py = 75 \<rparr>,
        ctrl2 = \<lparr> px = 75, py = 100 \<rparr>, ntype = Corner \<rparr>,
      \<lparr> anchor = \<lparr> px = 0, py = 100 \<rparr>, ctrl1 = \<lparr> px = 25, py = 100 \<rparr>,
        ctrl2 = \<lparr> px = 0, py = 75 \<rparr>, ntype = Corner \<rparr>]"

definition curvedPath :: "Node list" where
  "curvedPath = squarePath[0 := (squarePath ! 0)\<lparr> ctrl2 := \<lparr> px = 25, py = 10 \<rparr> \<rparr>]"

definition withPath :: "Node list \<Rightarrow> bool \<Rightarrow> App" where
  "withPath ns c = initialApp\<lparr> nodes := ns, isPathClosed := c,
      history := [\<lparr> nodes = [], isPathClosed = False \<rparr>, \<lparr> nodes = ns, isPathClosed = c \<rparr>],
      historyIndex := 1, symmetryState := PickingEdge \<rparr>"

text \<open>
  The path a pick on the first edge of the square gives: the edge from (0,0) to (100,0) is
  the axis, the nodes (100,100) and (0,100) are mirrored to (100,-100) and (0,-100). And a
  pick point far away, with finite coordinates.
\<close>

definition mirroredSquare :: "Node list" where
  "mirroredSquare =
     [\<lparr> anchor = \<lparr> px = 0, py = 0 \<rparr>, ctrl1 = \<lparr> px = 0, py = 25 \<rparr>,
        ctrl2 = \<lparr> px = 0, py = - 25 \<rparr>, ntype = Smooth \<rparr>,
      \<lparr> anchor = \<lparr> px = 0, py = - 100 \<rparr>, ctrl1 = \<lparr> px = 0, py = - 75 \<rparr>,
        ctrl2 = \<lparr> px = 25, py = - 100 \<rparr>, ntype = Corner \<rparr>,
      \<lparr> anchor = \<lparr> px = 100, py = - 100 \<rparr>, ctrl1 = \<lparr> px = 75, py = - 100 \<rparr>,
        ctrl2 = \<lparr> px = 100, py = - 75 \<rparr>, ntype = Corner \<rparr>,
      \<lparr> anchor = \<lparr> px = 100, py = 0 \<rparr>, ctrl1 = \<lparr> px = 100, py = - 25 \<rparr>,
        ctrl2 = \<lparr> px = 100, py = 25 \<rparr>, ntype = Smooth \<rparr>,
      \<lparr> anchor = \<lparr> px = 100, py = 100 \<rparr>, ctrl1 = \<lparr> px = 100, py = 75 \<rparr>,
        ctrl2 = \<lparr> px = 75, py = 100 \<rparr>, ntype = Corner \<rparr>,
      \<lparr> anchor = \<lparr> px = 0, py = 100 \<rparr>, ctrl1 = \<lparr> px = 25, py = 100 \<rparr>,
        ctrl2 = \<lparr> px = 0, py = 75 \<rparr>, ntype = Corner \<rparr>]"

definition farPoint :: Point where
  "farPoint = \<lparr> px = 10 ^ 200, py = 0 \<rparr>"

definition smoothNode :: Node where
  "smoothNode = \<lparr> anchor = \<lparr> px = 0, py = 0 \<rparr>, ctrl1 = \<lparr> px = - 30, py = 0 \<rparr>,
                   ctrl2 = \<lparr> px = 0, py = 20 \<rparr>, ntype = Smooth \<rparr>"

definition wheelEvent :: MouseEvent where
  "wheelEvent = \<lparr> clientX = 300, clientY = 200, ctrlKey = False, deltaY = - 1,
                  boundingRect = Some \<lparr> rectLeft = 0, rectTop = 0 \<rparr> \<rparr>"

text \<open>A press at the device point (12.5, 1.25), which is the world point (50, 5) at zoom 0.25.\<close>

definition pressEvent :: MouseEvent where
  "pressEvent = \<lparr> clientX = 25 / 2, clientY = 5 / 4, ctrlKey = False, deltaY = 0,
                   boundingRect = Some \<lparr> rectLeft = 0, rectTop = 0 \<rparr> \<rparr>"

definition twoClicks :: HeapApp where
  "twoClicks = appendNodeH \<lparr> px = 100, py = 0 \<rparr> (appendNodeH \<lparr> px = 0, py = 0 \<rparr> initialHeapApp)"

section \<open>History: proofs\<close>

lemma synced_goto: "synced s \<Longrightarrow> goto (historyIndex s) s = s"
  by (simp add: synced_def goto_def)

lemma history_goto [simp]: "history (goto j s) = history s"
  and historyIndex_goto [simp]: "historyIndex (goto j s) = j"
  by (simp_all add: goto_def)

lemma goto_goto [simp]: "goto i (goto j s) = goto i s"
  by (simp add: goto_def)

lemma undo_goto: "0 < j \<Longrightarrow> j \<le> length (history s) \<Longrightarrow> undo (goto j s) = Inr (goto (j - 1) s)"
  by (simp add: undo_def goto_def Let_def)

lemma redo_goto: "j + 1 < length (history s) \<Longrightarrow> redo (goto j s) = Inr (goto (j + 1) s)"
  by (simp add: redo_def goto_def Let_def)

lemma times_undo_goto:
  "k \<le> j \<Longrightarrow> j \<le> length (history s) \<Longrightarrow> repeatedly k undo (goto j s) = Inr (goto (j - k) s)"
proof (induction k arbitrary: j)
  case 0
  then show ?case by simp
next
  case (Suc k)
  then have "undo (goto j s) = Inr (goto (j - 1) s)" by (simp add: undo_goto)
  moreover have "repeatedly k undo (goto (j - 1) s) = Inr (goto (j - 1 - k) s)"
    using Suc.prems by (intro Suc.IH) auto
  ultimately show ?case by simp
qed

lemma times_redo_goto:
  "j + k < length (history s) \<Longrightarrow> repeatedly k redo (goto j s) = Inr (goto (j + k) s)"
proof (induction k arbitrary: j)
  case 0
  then show ?case by simp
next
  case (Suc k)
  then have "redo (goto j s) = Inr (goto (j + 1) s)" by (simp add: redo_goto)
  moreover have "repeatedly k redo (goto (j + 1) s) = Inr (goto (j + 1 + k) s)"
    using Suc.prems by (intro Suc.IH) auto
  ultimately show ?case by simp
qed

lemma update_history:
  "history (updateStateAndHistory ns c s) = take (historyIndex s + 1) (history s) @ [\<lparr> nodes = ns, isPathClosed = c \<rparr>]"
  "historyIndex (updateStateAndHistory ns c s) = length (history (updateStateAndHistory ns c s)) - 1"
  "nodes (updateStateAndHistory ns c s) = ns"
  "isPathClosed (updateStateAndHistory ns c s) = c"
  by (simp_all add: updateStateAndHistory_def Let_def)

lemma update_synced:
  "synced (updateStateAndHistory ns c s)"
  by (simp add: synced_def updateStateAndHistory_def Let_def nth_append)

lemma update_index:
  "historyIndex s < length (history s) \<Longrightarrow> historyIndex (updateStateAndHistory ns c s) = historyIndex s + 1"
  by (simp add: updateStateAndHistory_def Let_def)

lemma update_length:
  "historyIndex s < length (history s) \<Longrightarrow> length (history (updateStateAndHistory ns c s)) = historyIndex s + 2"
  by (simp add: updateStateAndHistory_def Let_def)

lemma update_nth:
  "i \<le> historyIndex s \<Longrightarrow> historyIndex s < length (history s) \<Longrightarrow> history (updateStateAndHistory ns c s) ! i = history s ! i"
  by (simp add: updateStateAndHistory_def Let_def nth_append)

lemma clickAppend_facts:
  assumes "historyIndex s < length (history s)"
  shows "synced (clickAppend p s)"
    and "historyIndex (clickAppend p s) = historyIndex s + 1"
    and "length (history (clickAppend p s)) = historyIndex s + 2"
    and "i \<le> historyIndex s \<Longrightarrow> history (clickAppend p s) ! i = history s ! i"
    and "isPathClosed (clickAppend p s) = isPathClosed s"
  using assms
  by (simp_all add: clickAppend_def Let_def synced_def update_index update_length update_nth update_history nth_append)

lemma appends_facts:
  assumes "synced s"
  shows "synced (appends ps s) \<and> historyIndex (appends ps s) = historyIndex s + length ps
    \<and> (\<forall>i \<le> historyIndex s. history (appends ps s) ! i = history s ! i)
    \<and> isPathClosed (appends ps s) = isPathClosed s"
  using assms
proof (induction ps arbitrary: s)
  case Nil
  then show ?case by (simp add: appends_def synced_def)
next
  case (Cons p ps)
  have lt: "historyIndex s < length (history s)" using Cons.prems by (simp add: synced_def)
  note f = clickAppend_facts[OF lt, where p = p]
  have "appends (p # ps) s = appends ps (clickAppend p s)" by (simp add: appends_def)
  with Cons.IH[OF f(1)] f show ?case by auto
qed

lemma undo_redo_appends:
  assumes "synced s"
  shows "repeatedly (length ps) undo (appends ps s) = Inr (goto (historyIndex s) (appends ps s))"
    and "nodes (goto (historyIndex s) (appends ps s)) = nodes s"
    and "isPathClosed (goto (historyIndex s) (appends ps s)) = isPathClosed s"
    and "repeatedly (length ps) redo (goto (historyIndex s) (appends ps s)) = Inr (appends ps s)"
proof -
  let ?t = "appends ps s"
  note f = appends_facts[OF assms, of ps]
  have sy: "synced ?t" and ix: "historyIndex ?t = historyIndex s + length ps" using f by auto
  have lt: "historyIndex s + length ps < length (history ?t)" using sy ix by (simp add: synced_def)
  have "repeatedly (length ps) undo (goto (historyIndex ?t) ?t) = Inr (goto (historyIndex ?t - length ps) ?t)"
    by (rule times_undo_goto) (use lt ix in auto)
  then have "repeatedly (length ps) undo ?t = Inr (goto (historyIndex ?t - length ps) ?t)"
    by (simp only: synced_goto[OF sy])
  then show "repeatedly (length ps) undo ?t = Inr (goto (historyIndex s) ?t)"
    by (simp add: ix)
  have "history ?t ! historyIndex s = history s ! historyIndex s" using f by auto
  then show "nodes (goto (historyIndex s) ?t) = nodes s"
    and "isPathClosed (goto (historyIndex s) ?t) = isPathClosed s"
    using assms by (simp_all add: goto_def synced_def)
  have "repeatedly (length ps) redo (goto (historyIndex s) ?t) = Inr (goto (historyIndex s + length ps) ?t)"
    by (rule times_redo_goto) (use lt in auto)
  moreover have "goto (historyIndex s + length ps) ?t = ?t"
    using synced_goto[OF sy] by (simp only: ix)
  ultimately show "repeatedly (length ps) redo (goto (historyIndex s) ?t) = Inr ?t"
    by simp
qed

text \<open>
  C7. A commit (\<open>updateStateAndHistory\<close>) keeps the entries up to the current index, drops
  the later ones, appends the new snapshot and moves the index to that last entry. \<open>undo\<close>
  at index 0 and \<open>redo\<close> at the last index return the state as it is. From a synced state,
  \<open>length ps\<close> click-appends followed by as many undos give back the path the run started
  from (the empty path when it started empty), and as many redos then restore the state
  after the appends.
\<close>

theorem history_commit_undo_redo:
  "history (updateStateAndHistory ns c s)
      = take (historyIndex s + 1) (history s) @ [\<lparr> nodes = ns, isPathClosed = c \<rparr>]
   \<and> historyIndex (updateStateAndHistory ns c s)
      = length (history (updateStateAndHistory ns c s)) - 1
   \<and> nodes (updateStateAndHistory ns c s) = ns
   \<and> isPathClosed (updateStateAndHistory ns c s) = c
   \<and> (historyIndex s = 0 \<longrightarrow> undo s = Inr s)
   \<and> (historyIndex s = length (history s) - 1 \<longrightarrow> redo s = Inr s)
   \<and> (synced s \<longrightarrow>
        (\<exists>u. repeatedly (length ps) undo (appends ps s) = Inr u
           \<and> nodes u = nodes s \<and> isPathClosed u = isPathClosed s
           \<and> (nodes s = [] \<longrightarrow> nodes u = [])
           \<and> repeatedly (length ps) redo u = Inr (appends ps s)))"
proof -
  have undo0: "historyIndex s = 0 \<longrightarrow> undo s = Inr s"
    by (simp add: undo_def)
  have redo_last: "historyIndex s = length (history s) - 1 \<longrightarrow> redo s = Inr s"
    by (auto simp add: redo_def)
  have run: "synced s \<longrightarrow>
        (\<exists>u. repeatedly (length ps) undo (appends ps s) = Inr u
           \<and> nodes u = nodes s \<and> isPathClosed u = isPathClosed s
           \<and> (nodes s = [] \<longrightarrow> nodes u = [])
           \<and> repeatedly (length ps) redo u = Inr (appends ps s))"
  proof
    assume sy: "synced s"
    note r = undo_redo_appends[OF sy, of ps]
    show "\<exists>u. repeatedly (length ps) undo (appends ps s) = Inr u
           \<and> nodes u = nodes s \<and> isPathClosed u = isPathClosed s
           \<and> (nodes s = [] \<longrightarrow> nodes u = [])
           \<and> repeatedly (length ps) redo u = Inr (appends ps s)"
      using r by (intro exI[of _ "goto (historyIndex s) (appends ps s)"]) simp
  qed
  show ?thesis
    using undo0 redo_last run by (simp add: update_history)
qed

theorem history_commit_undo_redo_witness:
  "historyIndex initialApp = 0 \<and> historyIndex initialApp = length (history initialApp) - 1
   \<and> synced initialApp \<and> nodes initialApp = []
   \<and> undo initialApp = Inr initialApp \<and> redo initialApp = Inr initialApp
   \<and> (\<exists>u. repeatedly 2 undo
             (appends [\<lparr> px = 0, py = 0 \<rparr>, \<lparr> px = 100, py = 0 \<rparr>] initialApp) = Inr u
          \<and> nodes u = []
          \<and> repeatedly 2 redo u
             = Inr (appends [\<lparr> px = 0, py = 0 \<rparr>, \<lparr> px = 100, py = 0 \<rparr>] initialApp))"
proof -
  have a: "historyIndex initialApp = 0" "historyIndex initialApp = length (history initialApp) - 1"
    "synced initialApp" "nodes initialApp = []"
    by (simp_all add: initialApp_def synced_def)
  show ?thesis
    using a history_commit_undo_redo
      [of "[]" False initialApp "[\<lparr> px = 0, py = 0 \<rparr>, \<lparr> px = 100, py = 0 \<rparr>]"]
    by (auto simp add: numeral_2_eq_2)
qed

section \<open>The nearest-point scans and the body loop\<close>

lemma closestStep_fst:
  "fst acc = Infinity \<or> fin_nonneg (fst acc) \<Longrightarrow> fin_nonneg (fst (closestStep point p0 p1 p2 p3 acc i))"
  by (cases acc; cases "fst acc") (auto simp: closestStep_def Let_def fin_nonneg_def)

lemma closestStep_snd:
  "snd (closestStep point p0 p1 p2 p3 acc i) = snd acc \<or> snd (closestStep point p0 p1 p2 p3 acc i) = real i / real steps"
  by (cases acc) (auto simp: closestStep_def Let_def)

lemma closest_fold_fst:
  "fin_nonneg (fst acc) \<Longrightarrow> fin_nonneg (fst (foldl (closestStep point p0 p1 p2 p3) acc xs))"
  by (induction xs arbitrary: acc) (auto simp: closestStep_fst)

lemma closest_fold_snd:
  "0 \<le> snd acc \<Longrightarrow> snd acc \<le> 1 \<Longrightarrow> \<forall>i \<in> set xs. i \<le> steps \<Longrightarrow>
     0 \<le> snd (foldl (closestStep point p0 p1 p2 p3) acc xs) \<and> snd (foldl (closestStep point p0 p1 p2 p3) acc xs) \<le> 1"
proof (induction xs arbitrary: acc)
  case Nil
  then show ?case by simp
next
  case (Cons i xs)
  have "i \<le> steps" using Cons.prems by simp
  then have "0 \<le> real i / real steps \<and> real i / real steps \<le> 1"
    by (simp add: steps_def)
  with closestStep_snd[of point p0 p1 p2 p3 acc i] Cons.prems
  have "0 \<le> snd (closestStep point p0 p1 p2 p3 acc i) \<and> snd (closestStep point p0 p1 p2 p3 acc i) \<le> 1"
    by auto
  with Cons.IH[of "closestStep point p0 p1 p2 p3 acc i"] Cons.prems show ?case by simp
qed

lemma findClosest_finite:
  "\<exists>d tb. findClosestPointOnCubicBezier point p0 p1 p2 p3 = (Fin d, tb) \<and> 0 \<le> d \<and> 0 \<le> tb \<and> tb \<le> 1"
proof -
  let ?f = "closestStep point p0 p1 p2 p3"
  have up: "[0..<steps + 1] = 0 # [1..<steps + 1]" by (simp add: upt_rec)
  let ?a1 = "?f (Infinity, 0) 0"
  let ?r = "foldl ?f (Infinity, 0) [0..<steps + 1]"
  have r: "?r = foldl ?f ?a1 [1..<steps + 1]" by (simp only: up foldl_Cons)
  have "fin_nonneg (fst ?a1)" by (rule closestStep_fst) simp
  then have f: "fin_nonneg (fst ?r)" unfolding r by (rule closest_fold_fst)
  have s: "0 \<le> snd ?r \<and> snd ?r \<le> 1"
    by (rule closest_fold_snd) auto
  obtain m tb where mt: "?r = (m, tb)" by (cases ?r)
  from f mt obtain a where a: "m = Fin a" "0 \<le> a" by (cases m) (auto simp: fin_nonneg_def)
  have "findClosestPointOnCubicBezier point p0 p1 p2 p3 = (Fin (sqrt a), tb)"
    by (simp only: findClosestPointOnCubicBezier_def mt a prod.case num_sqrt.simps)
  moreover have "0 \<le> sqrt a" using a by simp
  ultimately show ?thesis using s mt by auto
qed

lemma edgeStep_first:
  "\<exists>d. edgeStep point ns (c, Infinity) i = (int i, Fin d) \<and> 0 \<le> d"
proof -
  obtain d tb where "findClosestPointOnCubicBezier point (anchor (ns ! i)) (ctrl2 (ns ! i))
      (ctrl1 (ns ! ((i + 1) mod length ns))) (anchor (ns ! ((i + 1) mod length ns))) = (Fin d, tb)" "0 \<le> d"
    using findClosest_finite by blast
  then show ?thesis by (simp add: edgeStep_def Let_def)
qed

lemma edgeStep_range:
  "0 \<le> fst acc \<Longrightarrow> fst acc < int n \<Longrightarrow> i < n \<Longrightarrow>
     0 \<le> fst (edgeStep point ns acc i) \<and> fst (edgeStep point ns acc i) < int n"
  by (cases acc) (auto simp: edgeStep_def Let_def)

lemma edge_fold_range:
  "0 \<le> fst acc \<Longrightarrow> fst acc < int n \<Longrightarrow> \<forall>i \<in> set xs. i < n \<Longrightarrow>
     0 \<le> fst (foldl (edgeStep point ns) acc xs) \<and> fst (foldl (edgeStep point ns) acc xs) < int n"
proof (induction xs arbitrary: acc)
  case Nil
  then show ?case by simp
next
  case (Cons i xs)
  then have "0 \<le> fst (edgeStep point ns acc i) \<and> fst (edgeStep point ns acc i) < int n"
    by (intro edgeStep_range) auto
  with Cons.IH[of "edgeStep point ns acc i"] Cons.prems show ?case by simp
qed

lemma closestEdgeScan_range:
  assumes "0 < length ns"
  shows "0 \<le> fst (closestEdgeScan point ns) \<and> fst (closestEdgeScan point ns) < int (length ns)"
proof -
  have up: "[0..<length ns] = 0 # [1..<length ns]" using assms by (simp add: upt_rec)
  obtain d where d: "edgeStep point ns (- 1, Infinity) 0 = (int 0, Fin d)"
    using edgeStep_first by blast
  have "closestEdgeScan point ns = foldl (edgeStep point ns) (int 0, Fin d) [1..<length ns]"
    unfolding closestEdgeScan_def by (simp only: up foldl_Cons d)
  moreover have "0 \<le> fst (foldl (edgeStep point ns) (int 0, Fin d) [1..<length ns])
     \<and> fst (foldl (edgeStep point ns) (int 0, Fin d) [1..<length ns]) < int (length ns)"
    by (rule edge_fold_range) (use assms in auto)
  ultimately show ?thesis by simp
qed

lemma bodyLoop_steps:
  assumes "a < length ns"
  shows "cur < length ns \<Longrightarrow> cyc_dist (length ns) cur a = d \<Longrightarrow>
    bodyLoop ns a cur acc = Some (acc @ map (\<lambda>j. ns ! ((cur + j) mod length ns)) [0..<d])"
proof (induction d arbitrary: cur acc)
  case 0
  then have "cur = a" using assms by (auto simp: cyc_dist_def split: if_splits)
  then show ?case by (subst bodyLoop.simps) simp
next
  case (Suc d)
  let ?n = "length ns"
  have ne: "cur \<noteq> a" using Suc.prems by (auto simp: cyc_dist_def)
  let ?c = "(cur + 1) mod ?n"
  have c_lt: "?c < ?n" using assms by (intro mod_less_divisor) auto
  have dist: "cyc_dist ?n ?c a = d"
  proof (cases "cur + 1 < ?n")
    case True
    then show ?thesis using Suc.prems ne by (auto simp: cyc_dist_def split: if_splits)
  next
    case False
    then have cn: "cur + 1 = ?n" using Suc.prems by simp
    then have c: "?c = 0" by simp
    show ?thesis using Suc.prems ne assms cn unfolding c by (auto simp: cyc_dist_def split: if_splits)
  qed
  have "bodyLoop ns a cur acc = bodyLoop ns a ?c (acc @ [ns ! cur])"
    using ne by (subst bodyLoop.simps) simp
  also have "\<dots> = Some ((acc @ [ns ! cur]) @ map (\<lambda>j. ns ! ((?c + j) mod ?n)) [0..<d])"
    by (rule Suc.IH[OF c_lt dist])
  also have "map (\<lambda>j. ns ! ((?c + j) mod ?n)) [0..<d] = map (\<lambda>j. ns ! ((cur + j) mod ?n)) [1..<Suc d]"
  proof -
    have "[1..<Suc d] = map Suc [0..<d]" by (simp add: map_Suc_upt)
    moreover have "\<And>j. (?c + j) mod ?n = (cur + Suc j) mod ?n"
      by (simp add: mod_add_left_eq)
    ultimately show ?thesis by (simp add: comp_def)
  qed
  also have "(acc @ [ns ! cur]) @ map (\<lambda>j. ns ! ((cur + j) mod ?n)) [1..<Suc d]
      = acc @ map (\<lambda>j. ns ! ((cur + j) mod ?n)) [0..<Suc d]"
    using Suc.prems by (simp add: upt_rec[of 0])
  finally show ?case .
qed

lemma bodyLoop_from_B:
  assumes "a < length ns"
  shows "bodyLoop ns a ((a + 1) mod length ns) [] =
      Some (map (\<lambda>j. ns ! ((a + 1 + j) mod length ns)) [0..<length ns - 1])"
proof -
  let ?n = "length ns"
  have lt: "(a + 1) mod ?n < ?n" using assms by (intro mod_less_divisor) auto
  have d: "cyc_dist ?n ((a + 1) mod ?n) a = ?n - 1"
  proof (cases "a + 1 < ?n")
    case True
    then show ?thesis by (simp add: cyc_dist_def)
  next
    case False
    then have "a + 1 = ?n" using assms by simp
    then show ?thesis by (auto simp: cyc_dist_def)
  qed
  have "\<And>j. ((a + 1) mod ?n + j) mod ?n = (a + 1 + j) mod ?n"
    by (simp add: mod_add_left_eq)
  then show ?thesis
    using bodyLoop_steps[OF assms lt d, of "[]"] by simp
qed

section \<open>The symmetry operation: proofs\<close>

lemma slice_body:
  assumes "2 \<le> n"
  shows "slice 1 (length (map f [0..<n - 1] @ [z]) - 1) (map f [0..<n - 1] @ [z])
     = map (\<lambda>j. f (Suc j)) [0..<n - 2]"
proof -
  have "drop 1 (map f [0..<n - 1] @ [z]) = map f [1..<n - 1] @ [z]"
    using assms by (simp add: drop_map)
  moreover have "length (map f [1..<n - 1]) = n - 2" by simp
  ultimately have "slice 1 (length (map f [0..<n - 1] @ [z]) - 1) (map f [0..<n - 1] @ [z])
     = map f [1..<n - 1]"
    using assms by (simp add: slice_def)
  also have "[1..<n - 1] = map Suc [0..<n - 2]"
    using assms by (simp add: map_Suc_upt Suc_diff_Suc numeral_2_eq_2)
  finally show ?thesis by (simp add: comp_def)
qed

lemma axisIndex_lt: "0 < length ns \<Longrightarrow> axisIndex point ns < length ns"
  using closestEdgeScan_range[of ns point] unfolding axisIndex_def by linarith

lemma handle_pick_straight:
  assumes cl: "isPathClosed s" and n3: "3 \<le> length (nodes s)"
    and st: "edgeIsStraight (nodes s) (axisIndex point (nodes s))"
  shows "handleSymmetryEdgePick point s =
    (let ns = nodes s; k = axisIndex point ns;
         A = ns ! k; B = ns ! ((k + 1) mod length ns);
         pA = anchor A; pB = anchor B
     in Some ((updateStateAndHistory
          ([A\<lparr> ctrl2 := reflectPoint pA pB (ctrl1 A), ntype := Smooth \<rparr>]
            @ map swapHandles (rev (map (reflectNode pA pB) (intermediates ns k)))
            @ [B\<lparr> ctrl1 := reflectPoint pA pB (ctrl2 B), ntype := Smooth \<rparr>]
            @ intermediates ns k) True s) \<lparr> symmetryState := Inactive \<rparr>))"
proof -
  let ?ns = "nodes s"
  let ?k = "axisIndex point ?ns"
  have pos: "0 < length ?ns" using n3 by linarith
  have rng: "0 \<le> fst (closestEdgeScan point ?ns)" "fst (closestEdgeScan point ?ns) < int (length ?ns)"
    using closestEdgeScan_range[OF pos, of point] by auto
  have ne: "fst (closestEdgeScan point ?ns) \<noteq> - 1" using rng by simp
  have klt: "?k < length ?ns" using pos by (rule axisIndex_lt)
  have body: "bodyLoop ?ns ?k ((?k + 1) mod length ?ns) [] =
      Some (map (\<lambda>j. ?ns ! ((?k + 1 + j) mod length ?ns)) [0..<length ?ns - 1])"
    using klt by (rule bodyLoop_from_B)
  have sl: "slice 1 (length (map (\<lambda>j. ?ns ! ((?k + 1 + j) mod length ?ns)) [0..<length ?ns - 1] @ [?ns ! ?k]) - 1)
       (map (\<lambda>j. ?ns ! ((?k + 1 + j) mod length ?ns)) [0..<length ?ns - 1] @ [?ns ! ?k])
       = intermediates ?ns ?k"
    using n3 by (subst slice_body) (simp_all add: intermediates_def)
  have st': "isStraight (anchor (?ns ! ?k)) (anchor (?ns ! ((?k + 1) mod length ?ns)))
       (ctrl2 (?ns ! ?k)) (ctrl1 (?ns ! ((?k + 1) mod length ?ns)))"
    using st by (simp add: edgeIsStraight_def)
  have guard: "\<not> (\<not> isPathClosed s \<or> length ?ns < 3)" using cl n3 by simp
  show ?thesis
    unfolding handleSymmetryEdgePick_def Let_def
    apply (simp only: guard if_False ne axisIndex_def[symmetric] st' not_True_eq_False body option.case sl)
    done
qed

lemma closestStep_zero:
  "closestStep point p0 p1 p2 p3 (Fin 0, tb) i = (Fin 0, tb)"
proof -
  have "\<not> (a ^ 2 + b ^ 2 < 0)" for a b :: real
    by (simp add: not_less)
  then show ?thesis by (simp add: closestStep_def Let_def)
qed

lemma closest_fold_zero:
  "foldl (closestStep point p0 p1 p2 p3) (Fin 0, tb) xs = (Fin 0, tb)"
  by (induction xs) (simp_all add: closestStep_zero)

lemma findClosest_at_start:
  "findClosestPointOnCubicBezier p0 p0 p1 p2 p3 = (Fin 0, 0)"
proof -
  let ?f = "closestStep p0 p0 p1 p2 p3"
  have up: "[0..<steps + 1] = 0 # [1..<steps + 1]" by (simp add: upt_rec)
  have "?f (Infinity, 0) 0 = (Fin 0, 0)"
    by (simp add: closestStep_def getPointOnCubicBezier_def Let_def)
  then have "foldl ?f (Infinity, 0) [0..<steps + 1] = (Fin 0, 0)"
    by (simp only: up foldl_Cons closest_fold_zero)
  then show ?thesis
    by (simp only: findClosestPointOnCubicBezier_def prod.case num_sqrt.simps real_sqrt_zero)
qed

lemma edge_fold_zero:
  "foldl (edgeStep point ns) (c, Fin 0) xs = (c, Fin 0)"
proof (induction xs)
  case Nil
  then show ?case by simp
next
  case (Cons i xs)
  obtain d tb where "findClosestPointOnCubicBezier point (anchor (ns ! i)) (ctrl2 (ns ! i))
      (ctrl1 (ns ! ((i + 1) mod length ns))) (anchor (ns ! ((i + 1) mod length ns))) = (Fin d, tb)" "0 \<le> d"
    using findClosest_finite by blast
  then have "edgeStep point ns (c, Fin 0) i = (c, Fin 0)"
    by (simp add: edgeStep_def Let_def)
  with Cons.IH show ?case by simp
qed

lemma closestEdgeScan_first_anchor:
  assumes "0 < length ns"
  shows "closestEdgeScan (anchor (ns ! 0)) ns = (0, Fin 0)"
proof -
  have up: "[0..<length ns] = 0 # [1..<length ns]" using assms by (simp add: upt_rec)
  have "edgeStep (anchor (ns ! 0)) ns (- 1, Infinity) 0 = (0, Fin 0)"
    by (simp add: edgeStep_def Let_def findClosest_at_start)
  then show ?thesis
    unfolding closestEdgeScan_def by (simp only: up foldl_Cons edge_fold_zero)
qed

lemma axisIndex_first_anchor:
  "0 < length ns \<Longrightarrow> point = anchor (ns ! 0) \<Longrightarrow> axisIndex point ns = 0"
  by (simp add: axisIndex_def closestEdgeScan_first_anchor)

lemma length_intermediates: "length (intermediates ns k) = length ns - 2"
  by (simp add: intermediates_def)

text \<open>
  \<open>reflectPoint\<close> gives the mirror image in the axis line, and the mirror image of a point
  is unique; the mirrored copy of a node is the node reflected with its handles swapped.
\<close>

lemma D_coeff_zero_iff: "D_coeff pA pB = 0 \<longleftrightarrow> pA = pB"
proof -
  have "D_coeff pA pB = 0 \<longleftrightarrow> py pB - py pA = 0 \<and> px pA - px pB = 0"
    unfolding D_coeff_def A_coeff_def B_coeff_def
    by (simp add: sum_squares_eq_zero_iff)
  then show ?thesis by auto
qed

lemma D_coeff_nonneg: "0 \<le> D_coeff pA pB"
  by (simp add: D_coeff_def)

lemma D_coeff_expand: "D_coeff a b = (px b - px a) * (px b - px a) + (py b - py a) * (py b - py a)"
  by (simp add: D_coeff_def A_coeff_def B_coeff_def algebra_simps)

lemma reflectPoint_isMirrorImage:
  assumes "a \<noteq> b"
  shows "isMirrorImage a b p (reflectPoint a b p)"
proof -
  have nz: "D_coeff a b \<noteq> 0" using assms D_coeff_zero_iff[of a b] by simp
  let ?A = "py b - py a" and ?B = "px a - px b" and ?C = "px b * py a - py b * px a"
  let ?D = "?A * ?A + ?B * ?B"
  let ?v = "?A * px p + ?B * py p + ?C"
  have nz': "?D \<noteq> 0" using nz by (simp add: D_coeff_def A_coeff_def B_coeff_def)
  have r: "reflectPoint a b p = \<lparr> px = px p - 2 * ?A * ?v / ?D, py = py p - 2 * ?B * ?v / ?D \<rparr>"
    using nz by (simp add: reflectPoint_def Let_def D_coeff_def A_coeff_def B_coeff_def C_coeff_def)
  have perp: "(px p - 2 * ?A * ?v / ?D - px p) * (px b - px a)
            + (py p - 2 * ?B * ?v / ?D - py p) * (py b - py a) = 0"
    using nz' by (simp add: field_simps)
  have mid: "(px b - px a) * ((py p + (py p - 2 * ?B * ?v / ?D)) / 2 - py a)
           - (py b - py a) * ((px p + (px p - 2 * ?A * ?v / ?D)) / 2 - px a) = 0"
  proof -
    have "((px b - px a) * ((py p + (py p - 2 * ?B * ?v / ?D)) / 2 - py a)
           - (py b - py a) * ((px p + (px p - 2 * ?A * ?v / ?D)) / 2 - px a)) * ?D = 0"
      using nz' by (simp add: field_simps)
    then show ?thesis using nz' by (metis mult_eq_0_iff)
  qed
  show ?thesis
    unfolding isMirrorImage_def cross_def r using perp mid by simp
qed

lemma isMirrorImage_unique:
  assumes ne: "a \<noteq> b" and q: "isMirrorImage a b p q" and q': "isMirrorImage a b p q'"
  shows "q = q'"
proof -
  let ?dx = "px b - px a" and ?dy = "py b - py a"
  let ?wx = "px q - px q'" and ?wy = "py q - py q'"
  have n: "?dx * ?dx + ?dy * ?dy \<noteq> 0"
    using ne D_coeff_zero_iff[of a b] by (simp add: D_coeff_expand)
  have c: "?dx * ?wy - ?dy * ?wx = 0"
    using q q' unfolding isMirrorImage_def cross_def by (simp add: field_simps)
  have d: "?wx * ?dx + ?wy * ?dy = 0"
    using q q' unfolding isMirrorImage_def by algebra
  have "(?dx * ?dx + ?dy * ?dy) * ?wx = 0" using c d by algebra
  then have x: "?wx = 0" using n by (metis mult_eq_0_iff)
  have "(?dx * ?dx + ?dy * ?dy) * ?wy = 0" using c d by algebra
  then have y: "?wy = 0" using n by (metis mult_eq_0_iff)
  show ?thesis using x y by (cases q, cases q') simp
qed

lemma reflectPoint_reflectedAcross: "reflectedAcross a b p (reflectPoint a b p)"
proof (cases "a = b")
  case True
  then have "D_coeff a b = 0" using D_coeff_zero_iff[of a b] by simp
  then show ?thesis using True by (simp add: reflectedAcross_def reflectPoint_def)
next
  case False
  then show ?thesis by (simp add: reflectedAcross_def reflectPoint_isMirrorImage)
qed

lemma swap_reflect_isMirroredNode: "isMirroredNode a b n (swapHandles (reflectNode a b n))"
  by (simp add: isMirroredNode_def swapHandles_def reflectNode_def reflectPoint_reflectedAcross)

lemma mirrored_nth:
  assumes "j < length xs"
  shows "map swapHandles (rev (map (reflectNode a b) xs)) ! j
       = swapHandles (reflectNode a b (xs ! (length xs - 1 - j)))"
  using assms by (simp add: rev_nth)

lemma reflect_x_axis:
  "reflectPoint \<lparr> px = 0, py = 0 \<rparr> \<lparr> px = 100, py = 0 \<rparr> p = \<lparr> px = px p, py = - py p \<rparr>"
  by (simp add: reflectPoint_def D_coeff_def A_coeff_def B_coeff_def C_coeff_def Let_def)

text \<open>
  C1. On a closed path with at least 3 nodes whose chosen axis edge is straight,
  \<open>handleSymmetryEdgePick\<close> returns, and the new path is
  \<open>[A', reversed reflected intermediates with ctrl1 and ctrl2 swapped, B', intermediates]\<close>,
  where the intermediates are the nodes strictly between B and A. It has
  \<open>2 * (number of intermediates) + 2\<close> nodes and is closed. Position by position, with \<open>m\<close>
  intermediates: node 0 is A made smooth, its \<open>ctrl2\<close> the mirror image of its \<open>ctrl1\<close> in
  the line through the anchors of A and B; node \<open>1 + j\<close> is the mirrored copy of
  intermediate \<open>m - 1 - j\<close>, that is, the anchor is its mirror image in that line, \<open>ctrl1\<close>
  is the mirror image of its \<open>ctrl2\<close> and \<open>ctrl2\<close> of its \<open>ctrl1\<close>, the type is kept; node
  \<open>m + 1\<close> is B made smooth, its \<open>ctrl1\<close> the mirror image of its \<open>ctrl2\<close>; node
  \<open>m + 2 + j\<close> is intermediate \<open>j\<close> itself.
\<close>

theorem reflect_and_merge_assembles:
  assumes "isPathClosed s" and "3 \<le> length (nodes s)"
    and "edgeIsStraight (nodes s) (axisIndex point (nodes s))"
  shows "let ns = nodes s; k = axisIndex point ns;
             A = ns ! k; B = ns ! ((k + 1) mod length ns);
             pA = anchor A; pB = anchor B;
             inter = intermediates ns k; m = length inter
         in \<exists>s'. handleSymmetryEdgePick point s = Some s'
              \<and> nodes s' =
                  [A\<lparr> ctrl2 := reflectPoint pA pB (ctrl1 A), ntype := Smooth \<rparr>]
                  @ map swapHandles (rev (map (reflectNode pA pB) inter))
                  @ [B\<lparr> ctrl1 := reflectPoint pA pB (ctrl2 B), ntype := Smooth \<rparr>]
                  @ inter
              \<and> length (nodes s') = 2 * m + 2
              \<and> isPathClosed s'
              \<and> anchor (nodes s' ! 0) = pA \<and> ctrl1 (nodes s' ! 0) = ctrl1 A
              \<and> ntype (nodes s' ! 0) = Smooth
              \<and> reflectedAcross pA pB (ctrl1 A) (ctrl2 (nodes s' ! 0))
              \<and> (\<forall>j < m. isMirroredNode pA pB (inter ! (m - 1 - j)) (nodes s' ! (1 + j)))
              \<and> anchor (nodes s' ! (m + 1)) = pB \<and> ctrl2 (nodes s' ! (m + 1)) = ctrl2 B
              \<and> ntype (nodes s' ! (m + 1)) = Smooth
              \<and> reflectedAcross pA pB (ctrl2 B) (ctrl1 (nodes s' ! (m + 1)))
              \<and> (\<forall>j < m. nodes s' ! (m + 2 + j) = inter ! j)"
proof -
  define ns where "ns = nodes s"
  define k where "k = axisIndex point ns"
  define A where "A = ns ! k"
  define B where "B = ns ! ((k + 1) mod length ns)"
  define pA where "pA = anchor A"
  define pB where "pB = anchor B"
  define xs where "xs = intermediates ns k"
  define m where "m = length xs"
  define mir where "mir = map swapHandles (rev (map (reflectNode pA pB) xs))"
  define A' where "A' = A\<lparr> ctrl2 := reflectPoint pA pB (ctrl1 A), ntype := Smooth \<rparr>"
  define B' where "B' = B\<lparr> ctrl1 := reflectPoint pA pB (ctrl2 B), ntype := Smooth \<rparr>"
  define r where "r = [A'] @ mir @ [B'] @ xs"
  have "handleSymmetryEdgePick point s
      = Some ((updateStateAndHistory r True s)\<lparr> symmetryState := Inactive \<rparr>)"
    using handle_pick_straight[OF assms]
    by (simp add: Let_def r_def A'_def B'_def mir_def xs_def pA_def pB_def A_def B_def k_def ns_def)
  moreover have "nodes ((updateStateAndHistory r True s)\<lparr> symmetryState := Inactive \<rparr>) = r"
    "isPathClosed ((updateStateAndHistory r True s)\<lparr> symmetryState := Inactive \<rparr>)"
    by (simp_all add: update_history)
  ultimately obtain s' where ret: "handleSymmetryEdgePick point s = Some s'"
    and nd: "nodes s' = r" and cl: "isPathClosed s'"
    by blast
  have lm: "length mir = m" by (simp add: mir_def m_def)
  have len: "length r = 2 * m + 2" by (simp add: r_def lm m_def)
  have r0: "r ! 0 = A'" by (simp add: r_def)
  have rm: "r ! (1 + j) = swapHandles (reflectNode pA pB (xs ! (m - 1 - j)))" if "j < m" for j
  proof -
    have "r ! (1 + j) = (mir @ [B'] @ xs) ! j" by (simp add: r_def)
    also have "\<dots> = mir ! j" using that lm by (simp add: nth_append)
    also have "\<dots> = swapHandles (reflectNode pA pB (xs ! (m - 1 - j)))"
      unfolding mir_def m_def using that[unfolded m_def] by (rule mirrored_nth)
    finally show ?thesis .
  qed
  have rb: "r ! (m + 1) = B'"
  proof -
    have "r ! (m + 1) = (mir @ [B'] @ xs) ! m" by (simp add: r_def)
    also have "\<dots> = ([B'] @ xs) ! 0" using lm by (simp add: nth_append)
    finally show ?thesis by simp
  qed
  have ri: "r ! (m + 2 + j) = xs ! j" for j
  proof -
    have "r ! (m + 2 + j) = (mir @ [B'] @ xs) ! (m + 1 + j)" by (simp add: r_def)
    also have "\<dots> = ([B'] @ xs) ! (1 + j)" using lm by (simp add: nth_append)
    finally show ?thesis by simp
  qed
  have ri': "\<forall>j < m. r ! (m + 2 + j) = xs ! j" using ri by blast
  have mirrored: "\<forall>j < m. isMirroredNode pA pB (xs ! (m - 1 - j)) (r ! (1 + j))"
    using rm by (simp add: swap_reflect_isMirroredNode)
  have seamA: "anchor A' = pA" "ctrl1 A' = ctrl1 A" "ntype A' = Smooth"
    "reflectedAcross pA pB (ctrl1 A) (ctrl2 A')"
    by (simp_all add: A'_def pA_def reflectPoint_reflectedAcross)
  have seamB: "anchor B' = pB" "ctrl2 B' = ctrl2 B" "ntype B' = Smooth"
    "reflectedAcross pA pB (ctrl2 B) (ctrl1 B')"
    by (simp_all add: B'_def pB_def reflectPoint_reflectedAcross)
  have all: "handleSymmetryEdgePick point s = Some s'
      \<and> nodes s' = [A'] @ mir @ [B'] @ xs
      \<and> length (nodes s') = 2 * m + 2 \<and> isPathClosed s'
      \<and> anchor (nodes s' ! 0) = pA \<and> ctrl1 (nodes s' ! 0) = ctrl1 A
      \<and> ntype (nodes s' ! 0) = Smooth
      \<and> reflectedAcross pA pB (ctrl1 A) (ctrl2 (nodes s' ! 0))
      \<and> (\<forall>j < m. isMirroredNode pA pB (xs ! (m - 1 - j)) (nodes s' ! (1 + j)))
      \<and> anchor (nodes s' ! (m + 1)) = pB \<and> ctrl2 (nodes s' ! (m + 1)) = ctrl2 B
      \<and> ntype (nodes s' ! (m + 1)) = Smooth
      \<and> reflectedAcross pA pB (ctrl2 B) (ctrl1 (nodes s' ! (m + 1)))
      \<and> (\<forall>j < m. nodes s' ! (m + 2 + j) = xs ! j)"
    unfolding nd r0 rb
    by (intro conjI ret cl len mirrored seamA seamB r_def ri')
  show ?thesis
    unfolding Let_def
    using all[unfolded A'_def B'_def mir_def m_def xs_def pA_def pB_def A_def B_def k_def ns_def]
    by (rule exI[where x = s'])
qed

theorem reflect_and_merge_assembles_witness:
  "isPathClosed (withPath squarePath True) \<and> 3 \<le> length (nodes (withPath squarePath True))
   \<and> edgeIsStraight (nodes (withPath squarePath True))
        (axisIndex \<lparr> px = 0, py = 0 \<rparr> (nodes (withPath squarePath True)))
   \<and> (\<exists>s'. handleSymmetryEdgePick \<lparr> px = 0, py = 0 \<rparr> (withPath squarePath True) = Some s'
          \<and> nodes s' = mirroredSquare \<and> length (nodes s') = 6 \<and> isPathClosed s'
          \<and> isMirroredNode \<lparr> px = 0, py = 0 \<rparr> \<lparr> px = 100, py = 0 \<rparr>
                (squarePath ! 3) (nodes s' ! 1)
          \<and> isMirroredNode \<lparr> px = 0, py = 0 \<rparr> \<lparr> px = 100, py = 0 \<rparr>
                (squarePath ! 2) (nodes s' ! 2))"
proof -
  have k: "axisIndex \<lparr> px = 0, py = 0 \<rparr> squarePath = 0"
    by (rule axisIndex_first_anchor) (simp_all add: squarePath_def)
  have h: "isPathClosed (withPath squarePath True)" "3 \<le> length (nodes (withPath squarePath True))"
    "edgeIsStraight (nodes (withPath squarePath True))
        (axisIndex \<lparr> px = 0, py = 0 \<rparr> (nodes (withPath squarePath True)))"
    by (simp_all add: withPath_def k) (simp_all add: squarePath_def edgeIsStraight_def isStraight_def)
  have n: "nodes (withPath squarePath True) = squarePath" by (simp add: withPath_def)
  have i: "intermediates squarePath 0 = [squarePath ! 2, squarePath ! 3]"
    by (simp add: intermediates_def squarePath_def upt_rec)
  have b: "(0 + 1) mod length squarePath = 1" by (simp add: squarePath_def)
  have l2: "length [squarePath ! 2, squarePath ! 3] = 2" by simp
  note th = reflect_and_merge_assembles[OF h, unfolded Let_def n k b i l2]
  have v: "[(squarePath ! 0)\<lparr> ctrl2 := reflectPoint (anchor (squarePath ! 0)) (anchor (squarePath ! 1))
                                          (ctrl1 (squarePath ! 0)), ntype := Smooth \<rparr>]
      @ map swapHandles (rev (map (reflectNode (anchor (squarePath ! 0)) (anchor (squarePath ! 1)))
                                [squarePath ! 2, squarePath ! 3]))
      @ [(squarePath ! 1)
           \<lparr> ctrl1 := reflectPoint (anchor (squarePath ! 0)) (anchor (squarePath ! 1))
                        (ctrl2 (squarePath ! 1)), ntype := Smooth \<rparr>]
      @ [squarePath ! 2, squarePath ! 3] = mirroredSquare"
    by (simp add: squarePath_def reflect_x_axis reflectNode_def swapHandles_def mirroredSquare_def)
  have ab: "anchor (squarePath ! 0) = \<lparr> px = 0, py = 0 \<rparr>"
    "anchor (squarePath ! 1) = \<lparr> px = 100, py = 0 \<rparr>"
    "anchor (squarePath ! Suc 0) = \<lparr> px = 100, py = 0 \<rparr>"
    by (simp_all add: squarePath_def)
  from th[unfolded v] obtain s' where s': "handleSymmetryEdgePick \<lparr> px = 0, py = 0 \<rparr> (withPath squarePath True) = Some s'"
    "nodes s' = mirroredSquare" "isPathClosed s'"
    "\<forall>j < 2. isMirroredNode (anchor (squarePath ! 0)) (anchor (squarePath ! 1))
        ([squarePath ! 2, squarePath ! 3] ! (2 - 1 - j)) (nodes s' ! (1 + j))"
    by blast
  have m1: "isMirroredNode \<lparr> px = 0, py = 0 \<rparr> \<lparr> px = 100, py = 0 \<rparr> (squarePath ! 3) (nodes s' ! 1)"
    using s'(4)[rule_format, of 0] by (simp add: ab)
  have m2: "isMirroredNode \<lparr> px = 0, py = 0 \<rparr> \<lparr> px = 100, py = 0 \<rparr> (squarePath ! 2) (nodes s' ! 2)"
    using s'(4)[rule_format, of 1] by (simp add: ab numeral_2_eq_2)
  have l: "length mirroredSquare = 6" by (simp add: mirroredSquare_def)
  show ?thesis using h s'(1,2,3) m1 m2 l by auto
qed

lemma handle_pick_not_eligible:
  "\<not> isPathClosed s \<or> length (nodes s) < 3 \<Longrightarrow>
     handleSymmetryEdgePick point s = Some (s\<lparr> symmetryState := Inactive \<rparr>)"
  by (simp add: handleSymmetryEdgePick_def)

lemma handle_pick_not_straight:
  assumes cl: "isPathClosed s" and n3: "3 \<le> length (nodes s)"
    and st: "\<not> edgeIsStraight (nodes s) (axisIndex point (nodes s))"
  shows "handleSymmetryEdgePick point s =
     Some (s\<lparr> alerts := alerts s @ [NotStraightEdgeError], symmetryState := Inactive \<rparr>)"
proof -
  let ?ns = "nodes s"
  have pos: "0 < length ?ns" using n3 by linarith
  have ne: "fst (closestEdgeScan point ?ns) \<noteq> - 1"
    using closestEdgeScan_range[OF pos, of point] by simp
  have st': "\<not> isStraight (anchor (?ns ! axisIndex point ?ns))
       (anchor (?ns ! ((axisIndex point ?ns + 1) mod length ?ns)))
       (ctrl2 (?ns ! axisIndex point ?ns)) (ctrl1 (?ns ! ((axisIndex point ?ns + 1) mod length ?ns)))"
    using st by (simp add: edgeIsStraight_def)
  have guard: "\<not> (\<not> isPathClosed s \<or> length ?ns < 3)" using cl n3 by simp
  show ?thesis
    unfolding handleSymmetryEdgePick_def Let_def
    by (simp only: guard if_False ne axisIndex_def[symmetric] st' not_False_eq_True if_True)
qed

text \<open>
  C2. When the path is open or has fewer than 3 nodes, \<open>handleSymmetryEdgePick\<close> only sets
  the symmetry mode to inactive (nothing is reported). When the path is closed with at least
  3 nodes and the closest edge fails the straightness test, it reports
  \<open>NotStraightEdgeError\<close> and sets the symmetry mode to inactive. In all three cases the
  nodes, the closed flag, the history and the history index are unchanged.
\<close>

theorem reflect_and_merge_failure_paths:
  "(\<not> isPathClosed s \<or> length (nodes s) < 3 \<longrightarrow>
      handleSymmetryEdgePick point s = Some (s\<lparr> symmetryState := Inactive \<rparr>))
   \<and> (isPathClosed s \<and> 3 \<le> length (nodes s)
        \<and> \<not> edgeIsStraight (nodes s) (axisIndex point (nodes s)) \<longrightarrow>
      handleSymmetryEdgePick point s =
        Some (s\<lparr> alerts := alerts s @ [NotStraightEdgeError], symmetryState := Inactive \<rparr>))
   \<and> (\<not> isPathClosed s \<or> length (nodes s) < 3
        \<or> \<not> edgeIsStraight (nodes s) (axisIndex point (nodes s)) \<longrightarrow>
      (\<exists>s'. handleSymmetryEdgePick point s = Some s'
         \<and> nodes s' = nodes s \<and> isPathClosed s' = isPathClosed s
         \<and> history s' = history s \<and> historyIndex s' = historyIndex s
         \<and> symmetryState s' = Inactive))"
proof -
  have a: "\<not> isPathClosed s \<or> length (nodes s) < 3 \<Longrightarrow>
      handleSymmetryEdgePick point s = Some (s\<lparr> symmetryState := Inactive \<rparr>)"
    by (rule handle_pick_not_eligible)
  have b: "isPathClosed s \<and> 3 \<le> length (nodes s)
        \<and> \<not> edgeIsStraight (nodes s) (axisIndex point (nodes s)) \<Longrightarrow>
      handleSymmetryEdgePick point s =
        Some (s\<lparr> alerts := alerts s @ [NotStraightEdgeError], symmetryState := Inactive \<rparr>)"
    by (simp add: handle_pick_not_straight)
  have c: "\<exists>s'. handleSymmetryEdgePick point s = Some s'
         \<and> nodes s' = nodes s \<and> isPathClosed s' = isPathClosed s
         \<and> history s' = history s \<and> historyIndex s' = historyIndex s
         \<and> symmetryState s' = Inactive"
    if "\<not> isPathClosed s \<or> length (nodes s) < 3
        \<or> \<not> edgeIsStraight (nodes s) (axisIndex point (nodes s))"
  proof (cases "\<not> isPathClosed s \<or> length (nodes s) < 3")
    case True
    then show ?thesis using a by simp
  next
    case False
    with that have "isPathClosed s \<and> 3 \<le> length (nodes s)
        \<and> \<not> edgeIsStraight (nodes s) (axisIndex point (nodes s))" by auto
    then show ?thesis using b by simp
  qed
  show ?thesis using a b c by blast
qed

theorem reflect_and_merge_failure_paths_witness:
  "\<not> isPathClosed (withPath squarePath False)
   \<and> handleSymmetryEdgePick \<lparr> px = 0, py = 0 \<rparr> (withPath squarePath False)
       = Some ((withPath squarePath False)\<lparr> symmetryState := Inactive \<rparr>)
   \<and> isPathClosed (withPath curvedPath True) \<and> 3 \<le> length (nodes (withPath curvedPath True))
   \<and> \<not> edgeIsStraight (nodes (withPath curvedPath True))
          (axisIndex \<lparr> px = 0, py = 0 \<rparr> (nodes (withPath curvedPath True)))
   \<and> handleSymmetryEdgePick \<lparr> px = 0, py = 0 \<rparr> (withPath curvedPath True)
       = Some ((withPath curvedPath True)
                 \<lparr> alerts := [NotStraightEdgeError], symmetryState := Inactive \<rparr>)"
proof -
  have o: "\<not> isPathClosed (withPath squarePath False)"
    by (simp add: withPath_def)
  have k: "axisIndex \<lparr> px = 0, py = 0 \<rparr> curvedPath = 0"
    by (rule axisIndex_first_anchor) (simp_all add: curvedPath_def squarePath_def)
  have h: "isPathClosed (withPath curvedPath True)" "3 \<le> length (nodes (withPath curvedPath True))"
    "\<not> edgeIsStraight (nodes (withPath curvedPath True))
        (axisIndex \<lparr> px = 0, py = 0 \<rparr> (nodes (withPath curvedPath True)))"
    by (simp_all add: withPath_def k)
       (simp_all add: curvedPath_def squarePath_def edgeIsStraight_def isStraight_def)
  have al: "alerts (withPath curvedPath True) = []"
    by (simp add: withPath_def initialApp_def)
  show ?thesis
    using o h al
      reflect_and_merge_failure_paths[of "withPath squarePath False" "\<lparr> px = 0, py = 0 \<rparr>"]
      reflect_and_merge_failure_paths[of "withPath curvedPath True" "\<lparr> px = 0, py = 0 \<rparr>"]
    by simp
qed

section \<open>The edge scan in double arithmetic\<close>

text \<open>
  Below the bound every operation of the scan has a finite result: a curve point is at most
  \<open>8 * b\<close> from the origin in each coordinate when the control points are at most \<open>b\<close>, its
  offset from the pick point at most \<open>9 * b\<close>, and \<open>distSq\<close> at most \<open>162 * b * b\<close>. So the
  scan in double arithmetic goes the way of the real-number scan.
\<close>

lemma fl_Num: "\<bar>v\<bar> < OVERFLOW \<Longrightarrow> fl v = Num v"
  by (auto simp add: fl_def)

lemma dmul_Num: "\<bar>a * b\<bar> < OVERFLOW \<Longrightarrow> dmul (Num a) (Num b) = Num (a * b)"
  by (simp add: fl_Num)

lemma dadd_Num: "\<bar>a + b\<bar> < OVERFLOW \<Longrightarrow> dadd (Num a) (Num b) = Num (a + b)"
  by (simp add: fl_Num)

lemma dsub_Num: "\<bar>a - b\<bar> < OVERFLOW \<Longrightarrow> dsub (Num a) (Num b) = Num (a - b)"
  by (simp add: dsub_def fl_Num)

lemma OVERFLOW_gt: "3 < OVERFLOW"
  by (simp add: OVERFLOW_def)

lemma abs_scaled:
  fixes c k v b :: real
  assumes "0 \<le> c" "c \<le> k" "\<bar>v\<bar> \<le> b"
  shows "\<bar>c * v\<bar> \<le> k * b"
proof -
  have "\<bar>c * v\<bar> = c * \<bar>v\<bar>" using assms(1) by (simp add: abs_mult)
  also have "\<dots> \<le> k * b" using assms by (intro mult_mono) auto
  finally show ?thesis .
qed

lemma unit_prod: "0 \<le> (a::real) \<Longrightarrow> a \<le> 1 \<Longrightarrow> 0 \<le> c \<Longrightarrow> c \<le> k \<Longrightarrow> 0 \<le> c * a \<and> c * a \<le> k"
proof -
  assume a: "0 \<le> a" "a \<le> 1" and c: "0 \<le> c" "c \<le> k"
  have "c * a \<le> k * 1" using a c by (intro mult_mono) auto
  then show ?thesis using a c by simp
qed

lemma bezier_coord_agree:
  fixes t x0 x1 x2 x3 b :: real
  assumes t: "0 \<le> t" "t \<le> 1" and b: "8 * b < OVERFLOW"
    and x: "\<bar>x0\<bar> \<le> b" "\<bar>x1\<bar> \<le> b" "\<bar>x2\<bar> \<le> b" "\<bar>x3\<bar> \<le> b"
  defines "u \<equiv> 1 - t"
  defines "v \<equiv> u * u * u * x0 + 3 * (u * u) * t * x1 + 3 * u * (t * t) * x2 + t * t * t * x3"
  shows "dadd (dadd (dadd (dmul (dmul (dmul (dsub (Num 1) (Num t)) (dsub (Num 1) (Num t)))
                                      (dsub (Num 1) (Num t))) (Num x0))
                          (dmul (dmul (dmul (Num 3) (dmul (dsub (Num 1) (Num t)) (dsub (Num 1) (Num t))))
                                      (Num t)) (Num x1)))
                    (dmul (dmul (dmul (Num 3) (dsub (Num 1) (Num t))) (dmul (Num t) (Num t))) (Num x2)))
              (dmul (dmul (dmul (Num t) (Num t)) (Num t)) (Num x3)) = Num v"
    and "\<bar>v\<bar> \<le> 8 * b"
proof -
  note O = OVERFLOW_gt
  have b0: "0 \<le> b" using x(1) by linarith
  have u: "0 \<le> u" "u \<le> 1" using t by (simp_all add: u_def)
  have s1: "dsub (Num 1) (Num t) = Num u" unfolding u_def using t O by (intro dsub_Num) simp
  have tt: "0 \<le> t * t \<and> t * t \<le> 1" using unit_prod[OF t t] .
  have uu: "0 \<le> u * u \<and> u * u \<le> 1" using unit_prod[OF u u] .
  have uuu: "0 \<le> u * u * u \<and> u * u * u \<le> 1"
    using unit_prod[OF u, of "u * u" 1] uu by simp
  have ttt: "0 \<le> t * t * t \<and> t * t * t \<le> 1"
    using unit_prod[OF t, of "t * t" 1] tt by simp
  have c1: "0 \<le> 3 * (u * u) \<and> 3 * (u * u) \<le> 3" using uu by simp
  have c1t: "0 \<le> 3 * (u * u) * t \<and> 3 * (u * u) * t \<le> 3"
    using unit_prod[OF t, of "3 * (u * u)" 3] c1 by simp
  have c2: "0 \<le> 3 * u \<and> 3 * u \<le> 3" using u by simp
  have c2t: "0 \<le> 3 * u * (t * t) \<and> 3 * u * (t * t) \<le> 3"
    using unit_prod[of "t * t" "3 * u" 3] tt c2 by simp
  have m_tt: "dmul (Num t) (Num t) = Num (t * t)" using tt O by (intro dmul_Num) simp
  have m_uu: "dmul (Num u) (Num u) = Num (u * u)" using uu O by (intro dmul_Num) simp
  have m_uuu: "dmul (Num (u * u)) (Num u) = Num (u * u * u)" using uuu O by (intro dmul_Num) simp
  have m_ttt: "dmul (Num (t * t)) (Num t) = Num (t * t * t)" using ttt O by (intro dmul_Num) simp
  have m_c1: "dmul (Num 3) (Num (u * u)) = Num (3 * (u * u))" using c1 O by (intro dmul_Num) simp
  have m_c1t: "dmul (Num (3 * (u * u))) (Num t) = Num (3 * (u * u) * t)"
    using c1t O by (intro dmul_Num) simp
  have m_c2: "dmul (Num 3) (Num u) = Num (3 * u)" using c2 O by (intro dmul_Num) simp
  have m_c2t: "dmul (Num (3 * u)) (Num (t * t)) = Num (3 * u * (t * t))"
    using c2t O by (intro dmul_Num) simp
  have a0: "\<bar>u * u * u * x0\<bar> \<le> 1 * b" using uuu x(1) by (intro abs_scaled) auto
  have a1: "\<bar>3 * (u * u) * t * x1\<bar> \<le> 3 * b" using c1t x(2) by (intro abs_scaled) auto
  have a2: "\<bar>3 * u * (t * t) * x2\<bar> \<le> 3 * b" using c2t x(3) by (intro abs_scaled) auto
  have a3: "\<bar>t * t * t * x3\<bar> \<le> 1 * b" using ttt x(4) by (intro abs_scaled) auto
  have t0: "dmul (Num (u * u * u)) (Num x0) = Num (u * u * u * x0)"
    using a0 b b0 by (intro dmul_Num) linarith
  have t1: "dmul (Num (3 * (u * u) * t)) (Num x1) = Num (3 * (u * u) * t * x1)"
    using a1 b b0 by (intro dmul_Num) linarith
  have t2: "dmul (Num (3 * u * (t * t))) (Num x2) = Num (3 * u * (t * t) * x2)"
    using a2 b b0 by (intro dmul_Num) linarith
  have t3: "dmul (Num (t * t * t)) (Num x3) = Num (t * t * t * x3)"
    using a3 b b0 by (intro dmul_Num) linarith
  have d1: "dadd (Num (u * u * u * x0)) (Num (3 * (u * u) * t * x1))
        = Num (u * u * u * x0 + 3 * (u * u) * t * x1)"
    using a0 a1 b b0 by (intro dadd_Num) linarith
  have d2: "dadd (Num (u * u * u * x0 + 3 * (u * u) * t * x1)) (Num (3 * u * (t * t) * x2))
        = Num (u * u * u * x0 + 3 * (u * u) * t * x1 + 3 * u * (t * t) * x2)"
    using a0 a1 a2 b b0 by (intro dadd_Num) linarith
  have d3: "dadd (Num (u * u * u * x0 + 3 * (u * u) * t * x1 + 3 * u * (t * t) * x2))
               (Num (t * t * t * x3)) = Num v"
    unfolding v_def using a0 a1 a2 a3 b b0 by (intro dadd_Num) linarith
  show "\<bar>v\<bar> \<le> 8 * b" unfolding v_def using a0 a1 a2 a3 by linarith
  show "dadd (dadd (dadd (dmul (dmul (dmul (dsub (Num 1) (Num t)) (dsub (Num 1) (Num t)))
                                      (dsub (Num 1) (Num t))) (Num x0))
                          (dmul (dmul (dmul (Num 3) (dmul (dsub (Num 1) (Num t)) (dsub (Num 1) (Num t))))
                                      (Num t)) (Num x1)))
                    (dmul (dmul (dmul (Num 3) (dsub (Num 1) (Num t))) (dmul (Num t) (Num t))) (Num x2)))
              (dmul (dmul (dmul (Num t) (Num t)) (Num t)) (Num x3)) = Num v"
    by (simp only: s1 m_tt m_uu m_uuu m_ttt m_c1 m_c1t m_c2 m_c2t t0 t1 t2 t3 d1 d2 d3)
qed

lemma getPoint_agree:
  assumes t: "0 \<le> t" "t \<le> 1" and b: "8 * b < OVERFLOW"
    and p: "pointWithin b p0" "pointWithin b p1" "pointWithin b p2" "pointWithin b p3"
  shows "getPointOnCubicBezierD (Num t) p0 p1 p2 p3
           = (Num (px (getPointOnCubicBezier t p0 p1 p2 p3)), Num (py (getPointOnCubicBezier t p0 p1 p2 p3)))"
    and "\<bar>px (getPointOnCubicBezier t p0 p1 p2 p3)\<bar> \<le> 8 * b"
    and "\<bar>py (getPointOnCubicBezier t p0 p1 p2 p3)\<bar> \<le> 8 * b"
proof -
  have x: "\<bar>px p0\<bar> \<le> b" "\<bar>px p1\<bar> \<le> b" "\<bar>px p2\<bar> \<le> b" "\<bar>px p3\<bar> \<le> b"
    and y: "\<bar>py p0\<bar> \<le> b" "\<bar>py p1\<bar> \<le> b" "\<bar>py p2\<bar> \<le> b" "\<bar>py p3\<bar> \<le> b"
    using p by (simp_all add: pointWithin_def)
  note ex = bezier_coord_agree[OF t b x] and ey = bezier_coord_agree[OF t b y]
  show "getPointOnCubicBezierD (Num t) p0 p1 p2 p3
           = (Num (px (getPointOnCubicBezier t p0 p1 p2 p3)), Num (py (getPointOnCubicBezier t p0 p1 p2 p3)))"
    unfolding getPointOnCubicBezierD_def getPointOnCubicBezier_def Let_def
    by (simp only: ex(1) ey(1) Point.simps)
  show "\<bar>px (getPointOnCubicBezier t p0 p1 p2 p3)\<bar> \<le> 8 * b"
    unfolding getPointOnCubicBezier_def Let_def using ex(2) by (simp only: Point.simps)
  show "\<bar>py (getPointOnCubicBezier t p0 p1 p2 p3)\<bar> \<le> 8 * b"
    unfolding getPointOnCubicBezier_def Let_def using ey(2) by (simp only: Point.simps)
qed

lemma square_bound:
  fixes d c :: real
  assumes "\<bar>d\<bar> \<le> c"
  shows "0 \<le> d * d" and "d * d \<le> c * c"
proof -
  show "0 \<le> d * d" by simp
  have "d * d = \<bar>d\<bar> * \<bar>d\<bar>" by simp
  also have "\<dots> \<le> c * c" using assms by (intro mult_mono) auto
  finally show "d * d \<le> c * c" .
qed

lemma dsquare_dsub_agree:
  assumes "\<bar>v\<bar> \<le> 8 * b" "\<bar>c\<bar> \<le> b" "9 * b < OVERFLOW" "162 * (b * b) < OVERFLOW"
  shows "dsquare (dsub (Num v) (Num c)) = Num ((v - c) * (v - c))"
    and "0 \<le> (v - c) * (v - c)" and "(v - c) * (v - c) \<le> 81 * (b * b)"
proof -
  have d: "\<bar>v - c\<bar> \<le> 9 * b" using assms(1,2) by linarith
  have s: "dsub (Num v) (Num c) = Num (v - c)" using d assms(3) by (intro dsub_Num) linarith
  note q = square_bound[OF d]
  show "0 \<le> (v - c) * (v - c)" by (rule q(1))
  show le: "(v - c) * (v - c) \<le> 81 * (b * b)" using q(2) by simp
  have "0 \<le> b * b" by simp
  then have "\<bar>(v - c) * (v - c)\<bar> < OVERFLOW" using q(1) le assms(4) by linarith
  then show "dsquare (dsub (Num v) (Num c)) = Num ((v - c) * (v - c))"
    unfolding dsquare_def s by (rule dmul_Num)
qed

lemma dless_toDouble: "dless (toDouble a) (toDouble m) = num_less a m"
  by (cases a; cases m) (simp_all add: toDouble_def)

lemma toDouble_Fin: "toDouble (Fin a) = Num a"
  by (simp add: toDouble_def)

lemma toDouble_Infinity: "toDouble Infinity = PInf"
  by (simp add: toDouble_def)

lemma closestStepD_agree:
  assumes i: "i \<le> steps" and b: "8 * b < OVERFLOW" "9 * b < OVERFLOW" "162 * (b * b) < OVERFLOW"
    and p: "pointWithin b point" "pointWithin b p0" "pointWithin b p1" "pointWithin b p2" "pointWithin b p3"
  shows "closestStepD point p0 p1 p2 p3 (toDouble m, bt) i
           = (toDouble (fst (closestStep point p0 p1 p2 p3 (m, bt) i)),
              snd (closestStep point p0 p1 p2 p3 (m, bt) i))"
proof -
  define t where "t = real i / real steps"
  have t: "0 \<le> t" "t \<le> 1" using i by (simp_all add: t_def steps_def)
  define pt where "pt = getPointOnCubicBezier t p0 p1 p2 p3"
  note g = getPoint_agree[OF t b(1) p(2-5), folded pt_def]
  have c: "\<bar>px point\<bar> \<le> b" "\<bar>py point\<bar> \<le> b" using p(1) by (simp_all add: pointWithin_def)
  note sx = dsquare_dsub_agree[OF g(2) c(1) b(2,3)] and sy = dsquare_dsub_agree[OF g(3) c(2) b(2,3)]
  define distSq where "distSq = (px pt - px point) * (px pt - px point) + (py pt - py point) * (py pt - py point)"
  have "0 \<le> b * b" by simp
  then have "\<bar>distSq\<bar> < OVERFLOW" unfolding distSq_def using sx(2,3) sy(2,3) b(3) by linarith
  then have a: "dadd (Num ((px pt - px point) * (px pt - px point)))
                    (Num ((py pt - py point) * (py pt - py point))) = Num distSq"
    unfolding distSq_def by (rule dadd_Num)
  have D: "closestStepD point p0 p1 p2 p3 (toDouble m, bt) i
      = (if dless (Num distSq) (toDouble m) then (Num distSq, t) else (toDouble m, bt))"
    unfolding closestStepD_def Let_def prod.case
    by (simp only: t_def[symmetric] g(1) fst_conv snd_conv sx(1) sy(1) a)
  have R: "closestStep point p0 p1 p2 p3 (m, bt) i
      = (if num_less (Fin distSq) m then (Fin distSq, t) else (m, bt))"
    unfolding closestStep_def Let_def prod.case
    by (simp only: t_def[symmetric] pt_def[symmetric] power2_eq_square distSq_def[symmetric])
  show ?thesis unfolding D R using dless_toDouble[of "Fin distSq" m]
    by (simp add: toDouble_Fin)
qed

lemma closest_foldD_agree:
  assumes b: "8 * b < OVERFLOW" "9 * b < OVERFLOW" "162 * (b * b) < OVERFLOW"
    and p: "pointWithin b point" "pointWithin b p0" "pointWithin b p1" "pointWithin b p2" "pointWithin b p3"
  shows "\<forall>i \<in> set xs. i \<le> steps \<Longrightarrow>
         foldl (closestStepD point p0 p1 p2 p3) (toDouble m, bt) xs
           = (toDouble (fst (foldl (closestStep point p0 p1 p2 p3) (m, bt) xs)),
              snd (foldl (closestStep point p0 p1 p2 p3) (m, bt) xs))"
proof (induction xs arbitrary: m bt)
  case Nil
  then show ?case by simp
next
  case (Cons i xs)
  have i: "i \<le> steps" using Cons.prems by simp
  obtain m' bt' where s: "closestStep point p0 p1 p2 p3 (m, bt) i = (m', bt')"
    by (cases "closestStep point p0 p1 p2 p3 (m, bt) i")
  have "closestStepD point p0 p1 p2 p3 (toDouble m, bt) i = (toDouble m', bt')"
    using closestStepD_agree[OF i b p, of m bt] by (simp add: s)
  then show ?case using Cons.IH[of m' bt'] Cons.prems by (simp add: s)
qed

lemma findClosestD_agree:
  assumes b: "8 * b < OVERFLOW" "9 * b < OVERFLOW" "162 * (b * b) < OVERFLOW"
    and p: "pointWithin b point" "pointWithin b p0" "pointWithin b p1" "pointWithin b p2" "pointWithin b p3"
  shows "findClosestPointOnCubicBezierD point p0 p1 p2 p3
           = (toDouble (fst (findClosestPointOnCubicBezier point p0 p1 p2 p3)),
              snd (findClosestPointOnCubicBezier point p0 p1 p2 p3))"
proof -
  let ?f = "closestStep point p0 p1 p2 p3"
  let ?r = "foldl ?f (Infinity, 0) [0..<steps + 1]"
  have up: "[0..<steps + 1] = 0 # [1..<steps + 1]" by (simp add: upt_rec)
  have r: "?r = foldl ?f (?f (Infinity, 0) 0) [1..<steps + 1]" by (simp only: up foldl_Cons)
  have "fin_nonneg (fst (?f (Infinity, 0) 0))" by (rule closestStep_fst) simp
  then have f: "fin_nonneg (fst ?r)" unfolding r by (rule closest_fold_fst)
  obtain m tb where mt: "?r = (m, tb)" by (cases ?r)
  from f mt obtain a where a: "m = Fin a" "0 \<le> a" by (cases m) (auto simp: fin_nonneg_def)
  have "\<forall>i \<in> set [0..<steps + 1]. i \<le> steps" by auto
  then have "foldl (closestStepD point p0 p1 p2 p3) (toDouble Infinity, 0) [0..<steps + 1]
      = (toDouble (fst ?r), snd ?r)"
    by (rule closest_foldD_agree[OF b p])
  then have D: "foldl (closestStepD point p0 p1 p2 p3) (PInf, 0) [0..<steps + 1] = (Num a, tb)"
    unfolding mt fst_conv snd_conv a toDouble_Fin toDouble_Infinity .
  have "findClosestPointOnCubicBezierD point p0 p1 p2 p3 = (Num (sqrt a), tb)"
    unfolding findClosestPointOnCubicBezierD_def D using a(2) by simp
  moreover have "findClosestPointOnCubicBezier point p0 p1 p2 p3 = (Fin (sqrt a), tb)"
    by (simp only: findClosestPointOnCubicBezier_def mt a prod.case num_sqrt.simps)
  ultimately show ?thesis by (simp add: toDouble_def)
qed

lemma nodeWithin_nth:
  assumes "\<forall>n \<in> set ns. nodeWithin b n" "i < length ns"
  shows "pointWithin b (anchor (ns ! i))" "pointWithin b (ctrl1 (ns ! i))" "pointWithin b (ctrl2 (ns ! i))"
  using assms by (auto simp: nodeWithin_def)

lemma edgeStepD_agree:
  assumes b: "8 * b < OVERFLOW" "9 * b < OVERFLOW" "162 * (b * b) < OVERFLOW"
    and p: "pointWithin b point" "\<forall>n \<in> set ns. nodeWithin b n" and i: "i < length ns"
  shows "edgeStepD point ns (c, toDouble m) i
           = (fst (edgeStep point ns (c, m) i), toDouble (snd (edgeStep point ns (c, m) i)))"
proof -
  have j: "(i + 1) mod length ns < length ns" using i by (intro mod_less_divisor) auto
  note f = findClosestD_agree[OF b p(1) nodeWithin_nth(1)[OF p(2) i] nodeWithin_nth(3)[OF p(2) i]
      nodeWithin_nth(2)[OF p(2) j] nodeWithin_nth(1)[OF p(2) j]]
  show ?thesis
    unfolding edgeStepD_def edgeStep_def Let_def prod.case f fst_conv dless_toDouble
    by simp
qed

lemma edge_foldD_agree:
  assumes b: "8 * b < OVERFLOW" "9 * b < OVERFLOW" "162 * (b * b) < OVERFLOW"
    and p: "pointWithin b point" "\<forall>n \<in> set ns. nodeWithin b n"
  shows "\<forall>i \<in> set xs. i < length ns \<Longrightarrow>
         foldl (edgeStepD point ns) (c, toDouble m) xs
           = (fst (foldl (edgeStep point ns) (c, m) xs), toDouble (snd (foldl (edgeStep point ns) (c, m) xs)))"
proof (induction xs arbitrary: c m)
  case Nil
  then show ?case by simp
next
  case (Cons i xs)
  have i: "i < length ns" using Cons.prems by simp
  obtain c' m' where s: "edgeStep point ns (c, m) i = (c', m')"
    by (cases "edgeStep point ns (c, m) i")
  have "edgeStepD point ns (c, toDouble m) i = (c', toDouble m')"
    using edgeStepD_agree[OF b p i, of c m] by (simp add: s)
  then show ?case using Cons.IH[of c' m'] Cons.prems by (simp add: s)
qed

lemma closestEdgeScanD_agree:
  assumes b: "8 * b < OVERFLOW" "9 * b < OVERFLOW" "162 * (b * b) < OVERFLOW"
    and p: "pointWithin b point" "\<forall>n \<in> set ns. nodeWithin b n"
  shows "closestEdgeScanD point ns
           = (fst (closestEdgeScan point ns), toDouble (snd (closestEdgeScan point ns)))"
proof -
  have "\<forall>i \<in> set [0..<length ns]. i < length ns" by auto
  then have "foldl (edgeStepD point ns) (- 1, toDouble Infinity) [0..<length ns]
      = (fst (foldl (edgeStep point ns) (- 1, Infinity) [0..<length ns]),
         toDouble (snd (foldl (edgeStep point ns) (- 1, Infinity) [0..<length ns])))"
    by (rule edge_foldD_agree[OF b p])
  then show ?thesis by (simp add: closestEdgeScanD_def closestEdgeScan_def toDouble_def)
qed

lemma COORD_BOUND_safe:
  "8 * COORD_BOUND < OVERFLOW" "9 * COORD_BOUND < OVERFLOW" "162 * (COORD_BOUND * COORD_BOUND) < OVERFLOW"
  by (simp_all add: COORD_BOUND_def OVERFLOW_def)

lemma nodeWithin_list_all:
  "list_all (nodeWithin b) ns \<Longrightarrow> \<forall>n \<in> set ns. nodeWithin b n"
  by (simp add: list_all_iff)

lemma dsquare_dsub_cases:
  "dsquare (dsub (Num a) (Num c)) = PInf \<or> (\<exists>v. dsquare (dsub (Num a) (Num c)) = Num v)"
proof -
  have sq: "\<And>d::real. fl (d * d) = PInf \<or> (\<exists>v. fl (d * d) = Num v)"
  proof -
    fix d :: real
    have "0 \<le> d * d" by simp
    moreover have "0 < OVERFLOW" by (simp add: OVERFLOW_def)
    ultimately have "\<not> d * d \<le> - OVERFLOW" by linarith
    then show "fl (d * d) = PInf \<or> (\<exists>v. fl (d * d) = Num v)" by (simp add: fl_def)
  qed
  show ?thesis
    using sq[of "a - c"] by (cases "fl (a - c)") (auto simp: dsquare_def dsub_def fl_def split: if_splits)
qed

lemma dadd_PInf_square: "dadd PInf (dsquare (dsub (Num a) (Num c))) = PInf"
  using dsquare_dsub_cases[of a c] by auto

lemma far_square_overflows:
  assumes v: "\<bar>v\<bar> \<le> r" and c: "r \<le> \<bar>c\<bar>" "\<bar>c\<bar> + r < OVERFLOW"
    and o: "OVERFLOW \<le> (\<bar>c\<bar> - r) * (\<bar>c\<bar> - r)"
  shows "dsquare (dsub (Num v) (Num c)) = PInf"
proof -
  have "\<bar>v - c\<bar> < OVERFLOW" using v c by linarith
  then have s: "dsub (Num v) (Num c) = Num (v - c)" by (rule dsub_Num)
  have lo: "\<bar>c\<bar> - r \<le> \<bar>v - c\<bar>" using v by linarith
  have "(\<bar>c\<bar> - r) * (\<bar>c\<bar> - r) \<le> \<bar>v - c\<bar> * \<bar>v - c\<bar>"
    using lo c(1) by (intro mult_mono) auto
  also have "\<dots> = (v - c) * (v - c)" by simp
  finally have "OVERFLOW \<le> (v - c) * (v - c)" using o by linarith
  then show ?thesis unfolding dsquare_def s by (simp add: fl_def)
qed

lemma closestStepD_far:
  assumes i: "i \<le> steps" and b: "8 * b < OVERFLOW"
    and p: "pointWithin b p0" "pointWithin b p1" "pointWithin b p2" "pointWithin b p3"
    and c: "8 * b \<le> \<bar>px point\<bar>" "\<bar>px point\<bar> + 8 * b < OVERFLOW"
    and o: "OVERFLOW \<le> (\<bar>px point\<bar> - 8 * b) * (\<bar>px point\<bar> - 8 * b)"
  shows "closestStepD point p0 p1 p2 p3 (PInf, bt) i = (PInf, bt)"
proof -
  define t where "t = real i / real steps"
  have t: "0 \<le> t" "t \<le> 1" using i by (simp_all add: t_def steps_def)
  note g = getPoint_agree[OF t b p]
  note x = far_square_overflows[OF g(2) c o]
  show ?thesis
    unfolding closestStepD_def Let_def prod.case
    by (simp only: t_def[symmetric] g(1) fst_conv snd_conv x dadd_PInf_square dless.simps if_False)
qed

lemma closest_foldD_far:
  assumes b: "8 * b < OVERFLOW"
    and p: "pointWithin b p0" "pointWithin b p1" "pointWithin b p2" "pointWithin b p3"
    and c: "8 * b \<le> \<bar>px point\<bar>" "\<bar>px point\<bar> + 8 * b < OVERFLOW"
    and o: "OVERFLOW \<le> (\<bar>px point\<bar> - 8 * b) * (\<bar>px point\<bar> - 8 * b)"
  shows "\<forall>i \<in> set xs. i \<le> steps \<Longrightarrow>
         foldl (closestStepD point p0 p1 p2 p3) (PInf, bt) xs = (PInf, bt)"
proof (induction xs)
  case Nil
  then show ?case by simp
next
  case (Cons i xs)
  have "i \<le> steps" using Cons.prems by simp
  then have "closestStepD point p0 p1 p2 p3 (PInf, bt) i = (PInf, bt)"
    by (rule closestStepD_far[OF _ b p c o])
  then show ?case using Cons by simp
qed

lemma findClosestD_far:
  assumes b: "8 * b < OVERFLOW"
    and p: "pointWithin b p0" "pointWithin b p1" "pointWithin b p2" "pointWithin b p3"
    and c: "8 * b \<le> \<bar>px point\<bar>" "\<bar>px point\<bar> + 8 * b < OVERFLOW"
    and o: "OVERFLOW \<le> (\<bar>px point\<bar> - 8 * b) * (\<bar>px point\<bar> - 8 * b)"
  shows "findClosestPointOnCubicBezierD point p0 p1 p2 p3 = (PInf, 0)"
proof -
  have "\<forall>i \<in> set [0..<steps + 1]. i \<le> steps" by auto
  then have "foldl (closestStepD point p0 p1 p2 p3) (PInf, 0) [0..<steps + 1] = (PInf, 0)"
    by (rule closest_foldD_far[OF b p c o])
  then show ?thesis unfolding findClosestPointOnCubicBezierD_def by simp
qed

lemma edge_foldD_far:
  assumes b: "8 * b < OVERFLOW" and p: "\<forall>n \<in> set ns. nodeWithin b n"
    and c: "8 * b \<le> \<bar>px point\<bar>" "\<bar>px point\<bar> + 8 * b < OVERFLOW"
    and o: "OVERFLOW \<le> (\<bar>px point\<bar> - 8 * b) * (\<bar>px point\<bar> - 8 * b)"
  shows "\<forall>i \<in> set xs. i < length ns \<Longrightarrow>
         foldl (edgeStepD point ns) (k, PInf) xs = (k, PInf)"
proof (induction xs)
  case Nil
  then show ?case by simp
next
  case (Cons i xs)
  have i: "i < length ns" using Cons.prems by simp
  have j: "(i + 1) mod length ns < length ns" using i by (intro mod_less_divisor) auto
  note f = findClosestD_far[OF b nodeWithin_nth(1)[OF p i] nodeWithin_nth(3)[OF p i]
      nodeWithin_nth(2)[OF p j] nodeWithin_nth(1)[OF p j] c o]
  have "edgeStepD point ns (k, PInf) i = (k, PInf)"
    unfolding edgeStepD_def Let_def prod.case f by simp
  then show ?case using Cons by simp
qed

lemma closestEdgeScanD_far:
  assumes b: "8 * b < OVERFLOW" and p: "\<forall>n \<in> set ns. nodeWithin b n"
    and c: "8 * b \<le> \<bar>px point\<bar>" "\<bar>px point\<bar> + 8 * b < OVERFLOW"
    and o: "OVERFLOW \<le> (\<bar>px point\<bar> - 8 * b) * (\<bar>px point\<bar> - 8 * b)"
  shows "closestEdgeScanD point ns = (- 1, PInf)"
proof -
  have "\<forall>i \<in> set [0..<length ns]. i < length ns" by auto
  then show ?thesis unfolding closestEdgeScanD_def by (rule edge_foldD_far[OF b p c o])
qed

text \<open>
  C10. In double arithmetic, on a closed path with at least 3 nodes, when the pick point
  and every anchor and handle of the path have coordinates of magnitude at most
  \<open>COORD_BOUND = 10 ^ 150\<close>: the edge scan ends with an edge index in range, never with the
  start value \<open>-1\<close>, so the handler goes on with an axis edge, the one the real-number scan
  selects; and on every segment of the path \<open>findClosestPointOnCubicBezier\<close>, which looks at
  \<open>steps + 1\<close> samples, returns a finite non-negative distance and a parameter in \<open>[0, 1]\<close>.
\<close>

theorem closest_edge_found_within_bound:
  assumes "isPathClosed s" and "3 \<le> length (nodes s)"
    and "pointWithin COORD_BOUND point" and "list_all (nodeWithin COORD_BOUND) (nodes s)"
  shows "fst (closestEdgeScanD point (nodes s)) \<noteq> - 1
     \<and> 0 \<le> fst (closestEdgeScanD point (nodes s))
     \<and> fst (closestEdgeScanD point (nodes s)) < int (length (nodes s))
     \<and> symmetryPickBranch point s = AxisEdge (axisIndex point (nodes s))
     \<and> axisIndex point (nodes s) < length (nodes s)
     \<and> (\<forall>i < length (nodes s). \<exists>d tb.
           findClosestPointOnCubicBezierD point (anchor (nodes s ! i)) (ctrl2 (nodes s ! i))
             (ctrl1 (nodes s ! ((i + 1) mod length (nodes s))))
             (anchor (nodes s ! ((i + 1) mod length (nodes s)))) = (Num d, tb)
           \<and> 0 \<le> d \<and> 0 \<le> tb \<and> tb \<le> 1)
     \<and> [0..<steps + 1] \<noteq> []"
proof -
  let ?ns = "nodes s"
  note w = nodeWithin_list_all[OF assms(4)]
  have pos: "0 < length ?ns" using assms(2) by linarith
  note r = closestEdgeScan_range[OF pos, of point]
  have e: "fst (closestEdgeScanD point ?ns) = fst (closestEdgeScan point ?ns)"
    by (simp add: closestEdgeScanD_agree[OF COORD_BOUND_safe assms(3) w])
  have ne: "fst (closestEdgeScan point ?ns) \<noteq> - 1" using r by linarith
  have br: "symmetryPickBranch point s = AxisEdge (axisIndex point ?ns)"
    using assms(1,2) ne by (simp add: symmetryPickBranch_def e axisIndex_def)
  have ax: "axisIndex point ?ns < length ?ns" using r unfolding axisIndex_def by linarith
  have fc: "\<exists>d tb. findClosestPointOnCubicBezierD point (anchor (?ns ! i)) (ctrl2 (?ns ! i))
             (ctrl1 (?ns ! ((i + 1) mod length ?ns))) (anchor (?ns ! ((i + 1) mod length ?ns))) = (Num d, tb)
           \<and> 0 \<le> d \<and> 0 \<le> tb \<and> tb \<le> 1" if i: "i < length ?ns" for i
  proof -
    have j: "(i + 1) mod length ?ns < length ?ns" using i by (intro mod_less_divisor) auto
    note f = findClosestD_agree[OF COORD_BOUND_safe assms(3) nodeWithin_nth(1)[OF w i]
        nodeWithin_nth(3)[OF w i] nodeWithin_nth(2)[OF w j] nodeWithin_nth(1)[OF w j]]
    obtain d tb where d: "findClosestPointOnCubicBezier point (anchor (?ns ! i)) (ctrl2 (?ns ! i))
        (ctrl1 (?ns ! ((i + 1) mod length ?ns))) (anchor (?ns ! ((i + 1) mod length ?ns))) = (Fin d, tb)"
        "0 \<le> d" "0 \<le> tb" "tb \<le> 1"
      using findClosest_finite by blast
    show ?thesis unfolding f d(1) using d(2-4) by (simp add: toDouble_Fin)
  qed
  have st: "[0..<steps + 1] \<noteq> []" by (simp add: steps_def)
  show ?thesis unfolding e using ne r br ax fc st by blast
qed

theorem closest_edge_found_within_bound_witness:
  "isPathClosed (withPath squarePath True) \<and> 3 \<le> length (nodes (withPath squarePath True))
   \<and> pointWithin COORD_BOUND \<lparr> px = 0, py = 0 \<rparr>
   \<and> list_all (nodeWithin COORD_BOUND) (nodes (withPath squarePath True))
   \<and> fst (closestEdgeScanD \<lparr> px = 0, py = 0 \<rparr> (nodes (withPath squarePath True))) \<noteq> - 1
   \<and> symmetryPickBranch \<lparr> px = 0, py = 0 \<rparr> (withPath squarePath True) = AxisEdge 0
   \<and> (\<exists>d tb. findClosestPointOnCubicBezierD \<lparr> px = 0, py = 0 \<rparr>
                 \<lparr> px = 0, py = 0 \<rparr> \<lparr> px = 25, py = 0 \<rparr>
                 \<lparr> px = 75, py = 0 \<rparr> \<lparr> px = 100, py = 0 \<rparr> = (Num d, tb)
           \<and> 0 \<le> d \<and> 0 \<le> tb \<and> tb \<le> 1)"
proof -
  have n: "nodes (withPath squarePath True) = squarePath" by (simp add: withPath_def)
  have h: "isPathClosed (withPath squarePath True)" "3 \<le> length (nodes (withPath squarePath True))"
    "pointWithin COORD_BOUND \<lparr> px = 0, py = 0 \<rparr>"
    "list_all (nodeWithin COORD_BOUND) (nodes (withPath squarePath True))"
    by (simp_all add: withPath_def squarePath_def pointWithin_def nodeWithin_def COORD_BOUND_def)
  have k: "axisIndex \<lparr> px = 0, py = 0 \<rparr> squarePath = 0"
    by (rule axisIndex_first_anchor) (simp_all add: squarePath_def)
  note th = closest_edge_found_within_bound[OF h, unfolded n k]
  have l: "0 < length squarePath" by (simp add: squarePath_def)
  have seg: "anchor (squarePath ! 0) = \<lparr> px = 0, py = 0 \<rparr>" "ctrl2 (squarePath ! 0) = \<lparr> px = 25, py = 0 \<rparr>"
    "ctrl1 (squarePath ! ((0 + 1) mod length squarePath)) = \<lparr> px = 75, py = 0 \<rparr>"
    "anchor (squarePath ! ((0 + 1) mod length squarePath)) = \<lparr> px = 100, py = 0 \<rparr>"
    by (simp_all add: squarePath_def)
  from th have a: "\<forall>i < length squarePath. \<exists>d tb.
           findClosestPointOnCubicBezierD \<lparr> px = 0, py = 0 \<rparr> (anchor (squarePath ! i)) (ctrl2 (squarePath ! i))
             (ctrl1 (squarePath ! ((i + 1) mod length squarePath)))
             (anchor (squarePath ! ((i + 1) mod length squarePath))) = (Num d, tb)
           \<and> 0 \<le> d \<and> 0 \<le> tb \<and> tb \<le> 1" by blast
  have f: "\<exists>d tb. findClosestPointOnCubicBezierD \<lparr> px = 0, py = 0 \<rparr>
                 \<lparr> px = 0, py = 0 \<rparr> \<lparr> px = 25, py = 0 \<rparr>
                 \<lparr> px = 75, py = 0 \<rparr> \<lparr> px = 100, py = 0 \<rparr> = (Num d, tb)
           \<and> 0 \<le> d \<and> 0 \<le> tb \<and> tb \<le> 1"
    using a[rule_format, OF l] unfolding seg .
  show ?thesis using h th f unfolding n by simp
qed

text \<open>
  Finite coordinates alone are not enough. For the pick point \<open>(1e200, 0)\<close> and the square
  with corners (0,0) and (100,100), every \<open>distSq\<close> is \<open>Infinity\<close>: no sample is less than the
  start value, every segment's distance is \<open>Infinity\<close>, no edge is less than the start value
  either, and the handler takes the early return of lines 235-238.
\<close>

lemma far_pick_numbers:
  "8 * (100::real) < OVERFLOW" "8 * 100 \<le> \<bar>px farPoint\<bar>" "\<bar>px farPoint\<bar> + 8 * 100 < OVERFLOW"
  "OVERFLOW \<le> (\<bar>px farPoint\<bar> - 8 * 100) * (\<bar>px farPoint\<bar> - 8 * 100)"
  by (simp_all add: OVERFLOW_def farPoint_def)

theorem closest_edge_overflow_counterexample:
  "isPathClosed (withPath squarePath True) \<and> 3 \<le> length (nodes (withPath squarePath True))
   \<and> px farPoint = 10 ^ 200 \<and> py farPoint = 0
   \<and> findClosestPointOnCubicBezierD farPoint
        \<lparr> px = 0, py = 0 \<rparr> \<lparr> px = 25, py = 0 \<rparr> \<lparr> px = 75, py = 0 \<rparr> \<lparr> px = 100, py = 0 \<rparr> = (PInf, 0)
   \<and> closestEdgeScanD farPoint (nodes (withPath squarePath True)) = (- 1, PInf)
   \<and> symmetryPickBranch farPoint (withPath squarePath True) = NoEdgeFound"
proof -
  have n: "nodes (withPath squarePath True) = squarePath" by (simp add: withPath_def)
  have h: "isPathClosed (withPath squarePath True)" "3 \<le> length (nodes (withPath squarePath True))"
    by (simp_all add: withPath_def squarePath_def)
  have x: "px farPoint = 10 ^ 200" "py farPoint = 0" by (simp_all add: farPoint_def)
  note nm = far_pick_numbers
  have w: "\<forall>n \<in> set squarePath. nodeWithin 100 n"
    by (simp add: squarePath_def nodeWithin_def pointWithin_def)
  have pw: "pointWithin 100 \<lparr> px = 0, py = 0 \<rparr>" "pointWithin 100 \<lparr> px = 25, py = 0 \<rparr>"
    "pointWithin 100 \<lparr> px = 75, py = 0 \<rparr>" "pointWithin 100 \<lparr> px = 100, py = 0 \<rparr>"
    by (simp_all add: pointWithin_def)
  have f: "findClosestPointOnCubicBezierD farPoint
        \<lparr> px = 0, py = 0 \<rparr> \<lparr> px = 25, py = 0 \<rparr> \<lparr> px = 75, py = 0 \<rparr> \<lparr> px = 100, py = 0 \<rparr> = (PInf, 0)"
    by (rule findClosestD_far[OF nm(1) pw nm(2-4)])
  have sc: "closestEdgeScanD farPoint squarePath = (- 1, PInf)"
    by (rule closestEdgeScanD_far[OF nm(1) w nm(2-4)])
  have br: "symmetryPickBranch farPoint (withPath squarePath True) = NoEdgeFound"
    using h by (simp add: symmetryPickBranch_def n sc)
  show ?thesis unfolding n using h[unfolded n] x f sc br[unfolded n] by (intro conjI)
qed

section \<open>Polar form of a handle offset\<close>

lemma hypot_nonneg: "0 \<le> hypot a b"
  by (simp add: hypot_def)

lemma sqrt_split_pos:
  assumes "a \<noteq> 0"
  shows "sqrt (a * a + b * b) = \<bar>a\<bar> * sqrt (1 + (b / a)\<^sup>2)"
proof -
  have "a * a + b * b = (a * a) * (1 + (b / a)\<^sup>2)"
    using assms by (simp add: field_simps power2_eq_square)
  then have "sqrt (a * a + b * b) = sqrt (a * a) * sqrt (1 + (b / a)\<^sup>2)"
    by (simp only: real_sqrt_mult)
  then show ?thesis by simp
qed

lemma sqrt_one_plus_pos: "0 < sqrt (1 + (c::real)\<^sup>2)"
  by (simp add: add_pos_nonneg)

lemma hypot_cos_atan2: "hypot a b * cos (atan2 b a) = a"
  and hypot_sin_atan2: "hypot a b * sin (atan2 b a) = b"
proof -
  have "hypot a b * cos (atan2 b a) = a \<and> hypot a b * sin (atan2 b a) = b"
  proof (cases "a = 0")
    case True
    then show ?thesis by (simp add: hypot_def atan2_def)
  next
    case False
    note sp = sqrt_split_pos[OF False, of b]
    have nz: "sqrt (1 + (b / a)\<^sup>2) \<noteq> 0" using sqrt_one_plus_pos[of "b / a"] by simp
    show ?thesis
    proof (cases "0 < a")
      case True
      then show ?thesis using nz
        by (simp add: hypot_def atan2_def sp cos_arctan sin_arctan)
    next
      case False
      then have neg: "a < 0" using \<open>a \<noteq> 0\<close> by simp
      then show ?thesis using nz
        by (simp add: hypot_def atan2_def sp cos_arctan sin_arctan)
    qed
  qed
  then show "hypot a b * cos (atan2 b a) = a" and "hypot a b * sin (atan2 b a) = b" by simp_all
qed

lemma hypot_scaled_unit: "0 \<le> d \<Longrightarrow> hypot (d * cos w) (d * sin w) = d"
proof -
  assume d: "0 \<le> d"
  have "(d * cos w) * (d * cos w) + (d * sin w) * (d * sin w)
      = (d * d) * (cos w * cos w + sin w * sin w)"
    by (simp only: distrib_left mult_ac)
  also have "\<dots> = d * d" by (simp only: sin_cos_squared_add3 mult_1_right)
  finally have "hypot (d * cos w) (d * sin w) = sqrt (d * d)"
    by (simp only: hypot_def)
  then show ?thesis using d by simp
qed

lemma hypot_factor_cos: "hypot a b * q * cos (atan2 b a) = q * a"
  and hypot_factor_sin: "hypot a b * q * sin (atan2 b a) = q * b"
proof -
  have "hypot a b * q * cos (atan2 b a) = q * (hypot a b * cos (atan2 b a))" by simp
  then show "hypot a b * q * cos (atan2 b a) = q * a" by (simp only: hypot_cos_atan2)
  have "hypot a b * q * sin (atan2 b a) = q * (hypot a b * sin (atan2 b a))" by simp
  then show "hypot a b * q * sin (atan2 b a) = q * b" by (simp only: hypot_sin_atan2)
qed

section \<open>Reflection and wheel zoom\<close>

lemma reflectPoint_checked_eq:
  "reflectPoint_checked pA pB p = Some (reflectPoint pA pB p)"
  by (simp add: reflectPoint_checked_def reflectPoint_def checked_div_def Let_def)

text \<open>
  C9. When the two axis points are equal, the line coefficients A and B and the divisor
  \<open>A\<^sup>2 + B\<^sup>2\<close> are zero and \<open>reflectPoint\<close> returns its argument. When they differ, the
  divisor is positive. In both cases no division by zero is made: the function with
  checked divisions returns a point, the one \<open>reflectPoint\<close> returns.
\<close>

theorem reflect_degenerate_axis_identity:
  "(lineA = lineB \<longrightarrow>
      A_coeff lineA lineB = 0 \<and> B_coeff lineA lineB = 0 \<and> D_coeff lineA lineB = 0
      \<and> reflectPoint lineA lineB p = p \<and> reflectPoint_checked lineA lineB p = Some p)
   \<and> (lineA \<noteq> lineB \<longrightarrow>
      0 < D_coeff lineA lineB
      \<and> reflectPoint_checked lineA lineB p = Some (reflectPoint lineA lineB p))
   \<and> reflectPoint_checked lineA lineB p \<noteq> None"
proof -
  have "lineA \<noteq> lineB \<Longrightarrow> 0 < D_coeff lineA lineB"
    using D_coeff_zero_iff[of lineA lineB] D_coeff_nonneg[of lineA lineB] by linarith
  moreover have "lineA = lineB \<Longrightarrow> reflectPoint lineA lineB p = p"
    using D_coeff_zero_iff[of lineA lineB] by (simp add: reflectPoint_def)
  moreover have "lineA = lineB \<Longrightarrow> A_coeff lineA lineB = 0 \<and> B_coeff lineA lineB = 0"
    by (simp add: A_coeff_def B_coeff_def)
  ultimately show ?thesis
    using D_coeff_zero_iff[of lineA lineB] by (auto simp add: reflectPoint_checked_eq)
qed

theorem reflect_degenerate_axis_identity_witness:
  "reflectPoint \<lparr> px = 3, py = 4 \<rparr> \<lparr> px = 3, py = 4 \<rparr> \<lparr> px = 7, py = 9 \<rparr> = \<lparr> px = 7, py = 9 \<rparr>
   \<and> reflectPoint_checked \<lparr> px = 3, py = 4 \<rparr> \<lparr> px = 3, py = 4 \<rparr> \<lparr> px = 7, py = 9 \<rparr>
       = Some \<lparr> px = 7, py = 9 \<rparr>
   \<and> \<lparr> px = 0, py = 0 \<rparr> \<noteq> \<lparr> px = 100, py = (0::real) \<rparr>
   \<and> 0 < D_coeff \<lparr> px = 0, py = 0 \<rparr> \<lparr> px = 100, py = 0 \<rparr>
   \<and> reflectPoint_checked \<lparr> px = 0, py = 0 \<rparr> \<lparr> px = 100, py = 0 \<rparr> \<lparr> px = 7, py = 9 \<rparr>
       = Some \<lparr> px = 7, py = - 9 \<rparr>"
proof -
  have r: "reflectPoint \<lparr> px = 0, py = 0 \<rparr> \<lparr> px = 100, py = 0 \<rparr> \<lparr> px = 7, py = 9 \<rparr>
      = \<lparr> px = 7, py = - 9 \<rparr>"
    by (simp add: reflectPoint_def D_coeff_def A_coeff_def B_coeff_def C_coeff_def Let_def)
  show ?thesis
    using reflect_degenerate_axis_identity
            [of "\<lparr> px = 3, py = 4 \<rparr>" "\<lparr> px = 3, py = 4 \<rparr>" "\<lparr> px = 7, py = 9 \<rparr>"]
          reflect_degenerate_axis_identity
            [of "\<lparr> px = 0, py = 0 \<rparr>" "\<lparr> px = 100, py = 0 \<rparr>" "\<lparr> px = 7, py = 9 \<rparr>"]
    by (simp add: r)
qed

text \<open>
  C8. For a wheel event at the device point \<open>d\<close> (pointer position relative to the svg
  element) and a view state of positive zoom, the new zoom is the old one times or divided
  by 1.1, clamped to \<open>[MIN_ZOOM, MAX_ZOOM]\<close>; the new pan is
  \<open>d - (d - oldPan) * (newZoom / oldZoom)\<close>; and \<open>d\<close> maps to the same world point before
  and after.
\<close>

theorem wheel_zoom_keeps_point_under_pointer:
  assumes "0 < zoom (viewState s)" and "boundingRect ev = Some rect"
  shows "let d = \<lparr> px = clientX ev - rectLeft rect, py = clientY ev - rectTop rect \<rparr>;
             old = viewState s;
             new = viewState (handleWheel ev s)
         in zoom new = max MIN_ZOOM (min MAX_ZOOM
                         (if deltaY ev < 0 then zoom old * 1.1 else zoom old / 1.1))
          \<and> MIN_ZOOM \<le> zoom new \<and> zoom new \<le> MAX_ZOOM
          \<and> px (pan new) = px d - (px d - px (pan old)) * (zoom new / zoom old)
          \<and> py (pan new) = py d - (py d - py (pan old)) * (zoom new / zoom old)
          \<and> toWorld d new = toWorld d old"
proof -
  let ?c = "max MIN_ZOOM (min MAX_ZOOM
              (if deltaY ev < 0 then zoom (viewState s) * 1.1 else zoom (viewState s) / 1.1))"
  have cpos: "0 < ?c" by (simp add: MIN_ZOOM_def MAX_ZOOM_def max_def min_def)
  have rng: "MIN_ZOOM \<le> ?c \<and> ?c \<le> MAX_ZOOM" by (simp add: MIN_ZOOM_def MAX_ZOOM_def)
  show ?thesis
  proof (cases "?c = zoom (viewState s)")
    case True
    then have "handleWheel ev s = s" using assms by (simp add: handleWheel_def Let_def)
    then show ?thesis using True rng assms(1) by (simp add: Let_def)
  next
    case False
    then have "viewState (handleWheel ev s) =
       \<lparr> zoom = ?c,
         pan = \<lparr> px = (clientX ev - rectLeft rect) - ((clientX ev - rectLeft rect) - px (pan (viewState s))) * (?c / zoom (viewState s)),
                 py = (clientY ev - rectTop rect) - ((clientY ev - rectTop rect) - py (pan (viewState s))) * (?c / zoom (viewState s)) \<rparr> \<rparr>"
      using assms by (simp add: handleWheel_def Let_def)
    then show ?thesis using cpos rng assms(1)
      by (simp add: Let_def toWorld_def del: max_less_iff_conj)
  qed
qed

theorem wheel_zoom_keeps_point_under_pointer_witness:
  "0 < zoom (viewState initialApp)
   \<and> boundingRect wheelEvent = Some \<lparr> rectLeft = 0, rectTop = 0 \<rparr>
   \<and> zoom (viewState (handleWheel wheelEvent initialApp)) = 11 / 40
   \<and> pan (viewState (handleWheel wheelEvent initialApp)) = \<lparr> px = - 30, py = - 20 \<rparr>
   \<and> toWorld \<lparr> px = 300, py = 200 \<rparr> (viewState (handleWheel wheelEvent initialApp))
       = toWorld \<lparr> px = 300, py = 200 \<rparr> (viewState initialApp)"
proof -
  have h: "0 < zoom (viewState initialApp)"
    "boundingRect wheelEvent = Some \<lparr> rectLeft = 0, rectTop = 0 \<rparr>"
    by (simp_all add: initialApp_def wheelEvent_def)
  have v: "viewState (handleWheel wheelEvent initialApp)
      = \<lparr> zoom = 11 / 40, pan = \<lparr> px = - 30, py = - 20 \<rparr> \<rparr>"
    by (simp add: handleWheel_def wheelEvent_def initialApp_def Let_def MIN_ZOOM_def MAX_ZOOM_def)
  have c: "clientX wheelEvent = 300" "clientY wheelEvent = 200"
    by (simp_all add: wheelEvent_def)
  show ?thesis
    using h wheel_zoom_keeps_point_under_pointer[OF h]
    by (simp add: Let_def v c)
qed

section \<open>Handle moves and appends\<close>

lemma opposite_of_polar:
  fixes h d w :: real
  assumes "0 \<le> h" "0 \<le> d"
  shows "(- (h * cos w)) * (d * sin w) - (- (h * sin w)) * (d * cos w) = 0"
    and "(- (h * cos w)) * (d * cos w) + (- (h * sin w)) * (d * sin w) \<le> 0"
proof -
  show "(- (h * cos w)) * (d * sin w) - (- (h * sin w)) * (d * cos w) = 0"
    by (simp add: mult_ac)
  have "(- (h * cos w)) * (d * cos w) + (- (h * sin w)) * (d * sin w)
      = - ((h * d) * (cos w * cos w + sin w * sin w))"
    by algebra
  also have "\<dots> = - (h * d)" by (simp only: sin_cos_squared_add3 mult_1_right)
  finally show "(- (h * cos w)) * (d * cos w) + (- (h * sin w)) * (d * sin w) \<le> 0"
    using assms by simp
qed

lemma drag_polar:
  fixes a p c :: Point
  defines "w \<equiv> atan2 (py a - py p) (px a - px p)"
  defines "d \<equiv> hypot (px a - px c) (py a - py c)"
  defines "q \<equiv> \<lparr> px = px a + d * cos w, py = py a + d * sin w \<rparr>"
  shows "cross a p q = 0" and "dot a p q \<le> 0" and "distance a q = distance a c"
proof -
  let ?h = "hypot (px a - px p) (py a - py p)"
  have hx: "px p - px a = - (?h * cos w)"
    using hypot_cos_atan2[of "px a - px p" "py a - py p"] by (simp add: w_def)
  have hy: "py p - py a = - (?h * sin w)"
    using hypot_sin_atan2[of "px a - px p" "py a - py p"] by (simp add: w_def)
  have h0: "0 \<le> ?h" and d0: "0 \<le> d" by (simp_all add: hypot_nonneg d_def)
  have qx: "px q - px a = d * cos w" and qy: "py q - py a = d * sin w"
    by (simp_all add: q_def)
  show "cross a p q = 0"
    unfolding cross_def hx hy qx qy by (rule opposite_of_polar(1)[OF h0 d0])
  show "dot a p q \<le> 0"
    unfolding dot_def hx hy qx qy by (rule opposite_of_polar(2)[OF h0 d0])
  have "distance a q = hypot (- (d * cos w)) (- (d * sin w))"
    by (simp add: distance_def q_def)
  also have "\<dots> = hypot (d * cos w) (d * sin w)" by (simp add: hypot_def)
  also have "\<dots> = d" using d0 by (rule hypot_scaled_unit)
  finally show "distance a q = distance a c" by (simp add: d_def distance_def)
qed

text \<open>
  C6. Dragging \<open>ctrl1\<close> of a smooth node to \<open>p\<close> puts \<open>ctrl1\<close> at \<open>p\<close> and leaves the anchor;
  afterwards \<open>ctrl1\<close>, the anchor and \<open>ctrl2\<close> are collinear (cross product 0) with the
  handles on opposite rays from the anchor (dot product at most 0), and \<open>ctrl2\<close> is as far from
  the anchor as it was. The same holds with the two handles exchanged when \<open>ctrl2\<close> is
  dragged.
\<close>

theorem smooth_move_handle_collinear:
  assumes "ntype node = Smooth"
  shows "(let n1 = dragNode DragCtrl1 p node
          in ctrl1 n1 = p \<and> anchor n1 = anchor node \<and> ntype n1 = Smooth
           \<and> cross (anchor n1) (ctrl1 n1) (ctrl2 n1) = 0
           \<and> dot (anchor n1) (ctrl1 n1) (ctrl2 n1) \<le> 0
           \<and> distance (anchor n1) (ctrl2 n1) = distance (anchor node) (ctrl2 node))
       \<and> (let n2 = dragNode DragCtrl2 p node
          in ctrl2 n2 = p \<and> anchor n2 = anchor node \<and> ntype n2 = Smooth
           \<and> cross (anchor n2) (ctrl2 n2) (ctrl1 n2) = 0
           \<and> dot (anchor n2) (ctrl2 n2) (ctrl1 n2) \<le> 0
           \<and> distance (anchor n2) (ctrl1 n2) = distance (anchor node) (ctrl1 node))"
  using assms drag_polar[where a = "anchor node" and p = p and c = "ctrl2 node"]
    drag_polar[where a = "anchor node" and p = p and c = "ctrl1 node"]
  by (simp add: dragNode_def Let_def)

theorem smooth_move_handle_collinear_witness:
  "ntype smoothNode = Smooth
   \<and> ctrl1 (dragNode DragCtrl1 \<lparr> px = 3, py = 4 \<rparr> smoothNode) = \<lparr> px = 3, py = 4 \<rparr>
   \<and> cross (anchor smoothNode) \<lparr> px = 3, py = 4 \<rparr>
         (ctrl2 (dragNode DragCtrl1 \<lparr> px = 3, py = 4 \<rparr> smoothNode)) = 0
   \<and> dot (anchor smoothNode) \<lparr> px = 3, py = 4 \<rparr>
         (ctrl2 (dragNode DragCtrl1 \<lparr> px = 3, py = 4 \<rparr> smoothNode)) \<le> 0
   \<and> distance (anchor smoothNode) (ctrl2 (dragNode DragCtrl1 \<lparr> px = 3, py = 4 \<rparr> smoothNode)) = 20
   \<and> distance (anchor smoothNode) (ctrl1 (dragNode DragCtrl2 \<lparr> px = 3, py = 4 \<rparr> smoothNode)) = 30"
proof -
  have t: "ntype smoothNode = Smooth" by (simp add: smoothNode_def)
  have d: "distance (anchor smoothNode) (ctrl2 smoothNode) = 20"
    "distance (anchor smoothNode) (ctrl1 smoothNode) = 30"
    by (simp_all add: smoothNode_def distance_def hypot_def)
  show ?thesis
    using t d smooth_move_handle_collinear[OF t, of "\<lparr> px = 3, py = 4 \<rparr>"]
    unfolding Let_def by metis
qed

lemma hypot_scale: "0 \<le> q \<Longrightarrow> hypot (q * a) (q * b) = q * hypot a b"
proof -
  assume q: "0 \<le> q"
  have "(q * a) * (q * a) + (q * b) * (q * b) = (q * q) * (a * a + b * b)"
    by algebra
  then have "hypot (q * a) (q * b) = sqrt ((q * q) * (a * a + b * b))"
    by (simp only: hypot_def)
  also have "\<dots> = sqrt (q * q) * sqrt (a * a + b * b)" by (rule real_sqrt_mult)
  finally show ?thesis using q by (simp add: hypot_def)
qed

lemma joint_offsets:
  fixes a p :: Point
  defines "dx \<equiv> px p - px a" and "dy \<equiv> py p - py a"
  shows "hypot dx dy * SMOOTHING_FACTOR * cos (atan2 dy dx) = SMOOTHING_FACTOR * dx"
    and "hypot dx dy * SMOOTHING_FACTOR * sin (atan2 dy dx) = SMOOTHING_FACTOR * dy"
  using hypot_cos_atan2[of dx dy] hypot_sin_atan2[of dx dy]
  by (simp_all add: mult.commute mult.left_commute)

lemma appendNode_nonempty:
  assumes "ns \<noteq> []"
  shows "appendNode p ns =
     butlast ns
     @ [(last ns)\<lparr> ctrl2 := \<lparr> px = px (anchor (last ns)) + SMOOTHING_FACTOR * (px p - px (anchor (last ns))),
                               py = py (anchor (last ns)) + SMOOTHING_FACTOR * (py p - py (anchor (last ns))) \<rparr> \<rparr>,
        \<lparr> anchor = p,
          ctrl1 = \<lparr> px = px p - SMOOTHING_FACTOR * (px p - px (anchor (last ns))),
                    py = py p - SMOOTHING_FACTOR * (py p - py (anchor (last ns))) \<rparr>,
          ctrl2 = \<lparr> px = px p + 50, py = py p \<rparr>, ntype = Corner \<rparr>]"
proof -
  have l: "ns ! (length ns - Suc 0) = last ns" using assms by (simp add: last_conv_nth)
  have u: "ns[length ns - Suc 0 := v] = butlast ns @ [v]" for v
    using assms by (induction ns rule: rev_induct) simp_all
  show ?thesis
    using assms
    by (simp add: appendNode_def Let_def l u joint_offsets)
qed

lemma hypot_zero_right: "hypot a 0 = \<bar>a\<bar>"
  by (simp add: hypot_def)

lemma distance_scaled:
  assumes "0 \<le> q"
  shows "distance \<lparr> px = px p - q * (px p - px a), py = py p - q * (py p - py a) \<rparr> p = q * distance a p"
    and "distance \<lparr> px = px a + q * (px p - px a), py = py a + q * (py p - py a) \<rparr> a = q * distance a p"
proof -
  have "distance \<lparr> px = px p - q * (px p - px a), py = py p - q * (py p - py a) \<rparr> p
      = hypot (q * (px a - px p)) (q * (py a - py p))"
    by (simp add: distance_def algebra_simps)
  then show "distance \<lparr> px = px p - q * (px p - px a), py = py p - q * (py p - py a) \<rparr> p = q * distance a p"
    using hypot_scale[OF assms, of "px a - px p" "py a - py p"] by (simp add: distance_def)
  have "hypot (q * (px p - px a)) (q * (py p - py a)) = q * hypot (px p - px a) (py p - py a)"
    by (rule hypot_scale[OF assms])
  also have "hypot (px p - px a) (py p - py a) = hypot (px a - px p) (py a - py p)"
    by (simp add: hypot_def power2_commute[of "px p" "px a"] power2_commute[of "py p" "py a"] flip: power2_eq_square)
  finally show "distance \<lparr> px = px a + q * (px p - px a), py = py a + q * (py p - py a) \<rparr> a = q * distance a p"
    by (simp add: distance_def)
qed

text \<open>
  C5, as the code has it. Appending a node at \<open>p\<close> to a non-empty path keeps the earlier
  nodes, puts the new node's incoming handle at \<open>p - 0.25 * (p - prevAnchor)\<close>, at distance
  \<open>0.25 * distance(prevAnchor, p)\<close> from \<open>p\<close>, and sets the previous node's outgoing handle to
  \<open>prevAnchor + 0.25 * (p - prevAnchor)\<close>: along the same angle and at that same distance
  \<open>0.25 * distance(prevAnchor, p)\<close> from its anchor, whatever its length was before.
\<close>

theorem append_joint_handles:
  assumes "ns \<noteq> []"
  shows "let prev = last ns; r = appendNode p ns; d = distance (anchor prev) p
         in length r = length ns + 1
          \<and> take (length ns - 1) r = butlast ns
          \<and> anchor (last r) = p \<and> ntype (last r) = Corner
          \<and> ctrl1 (last r) = \<lparr> px = px p - SMOOTHING_FACTOR * (px p - px (anchor prev)),
                                 py = py p - SMOOTHING_FACTOR * (py p - py (anchor prev)) \<rparr>
          \<and> distance (ctrl1 (last r)) p = SMOOTHING_FACTOR * d
          \<and> r ! (length ns - 1) =
               prev\<lparr> ctrl2 := \<lparr> px = px (anchor prev) + SMOOTHING_FACTOR * (px p - px (anchor prev)),
                                  py = py (anchor prev) + SMOOTHING_FACTOR * (py p - py (anchor prev)) \<rparr> \<rparr>
          \<and> distance (ctrl2 (r ! (length ns - 1))) (anchor prev) = SMOOTHING_FACTOR * d"
proof -
  have q: "0 \<le> SMOOTHING_FACTOR" by (simp add: SMOOTHING_FACTOR_def)
  have len: "length (butlast ns) = length ns - 1" by simp
  show ?thesis
    unfolding Let_def appendNode_nonempty[OF assms]
    using assms distance_scaled[OF q, where p = p and a = "anchor (last ns)"]
    by (simp add: nth_append)
qed

theorem append_joint_handles_witness:
  "appendNode \<lparr> px = 0, py = 0 \<rparr> [] \<noteq> []
   \<and> length (appendNode \<lparr> px = 100, py = 0 \<rparr> (appendNode \<lparr> px = 0, py = 0 \<rparr> [])) = 2
   \<and> ctrl1 (last (appendNode \<lparr> px = 100, py = 0 \<rparr> (appendNode \<lparr> px = 0, py = 0 \<rparr> [])))
       = \<lparr> px = 75, py = 0 \<rparr>
   \<and> ctrl2 (appendNode \<lparr> px = 100, py = 0 \<rparr> (appendNode \<lparr> px = 0, py = 0 \<rparr> []) ! 0)
       = \<lparr> px = 25, py = 0 \<rparr>"
proof -
  have v: "appendNode \<lparr> px = 0, py = 0 \<rparr> [] =
     [\<lparr> anchor = \<lparr> px = 0, py = 0 \<rparr>, ctrl1 = \<lparr> px = - 50, py = 0 \<rparr>,
        ctrl2 = \<lparr> px = 50, py = 0 \<rparr>, ntype = Corner \<rparr>]"
    by (simp add: appendNode_def)
  have ne: "appendNode \<lparr> px = 0, py = 0 \<rparr> [] \<noteq> []" by (simp add: v)
  show ?thesis
    using ne append_joint_handles[OF ne, of "\<lparr> px = 100, py = 0 \<rparr>"]
    by (simp add: Let_def v SMOOTHING_FACTOR_def)
qed

text \<open>
  C5 as stated fails: after clicks at (0,0) and (100,0) the first node's outgoing handle is
  25 from its anchor, and it was 50 from it before the second click.
\<close>

theorem append_prev_handle_length_counterexample:
  "distance (ctrl2 (appendNode \<lparr> px = 100, py = 0 \<rparr> (appendNode \<lparr> px = 0, py = 0 \<rparr> []) ! 0))
            (anchor (appendNode \<lparr> px = 100, py = 0 \<rparr> (appendNode \<lparr> px = 0, py = 0 \<rparr> []) ! 0))
   \<noteq> distance (ctrl2 (appendNode \<lparr> px = 0, py = 0 \<rparr> [] ! 0))
               (anchor (appendNode \<lparr> px = 0, py = 0 \<rparr> [] ! 0))"
proof -
  have v: "appendNode \<lparr> px = 0, py = 0 \<rparr> [] =
     [\<lparr> anchor = \<lparr> px = 0, py = 0 \<rparr>, ctrl1 = \<lparr> px = - 50, py = 0 \<rparr>,
        ctrl2 = \<lparr> px = 50, py = 0 \<rparr>, ntype = Corner \<rparr>]"
    by (simp add: appendNode_def)
  have ne: "[\<lparr> anchor = \<lparr> px = 0, py = 0 \<rparr>, ctrl1 = \<lparr> px = - 50, py = 0 \<rparr>,
        ctrl2 = \<lparr> px = 50, py = 0 \<rparr>, ntype = Corner \<rparr>] \<noteq> []" by simp
  show ?thesis
    unfolding v appendNode_nonempty[OF ne]
    by (simp add: distance_def hypot_zero_right SMOOTHING_FACTOR_def)
qed

section \<open>Where the example inputs come from\<close>

lemma point_eta: "\<lparr> px = px p, py = py p \<rparr> = (p :: Point)"
  by (cases p) simp

lemma clickAppend_nodes:
  "\<not> isSnapEnabled s \<Longrightarrow> nodes (clickAppend p s) = appendNode p (nodes s)"
  "isSnapEnabled (clickAppend p s) = isSnapEnabled s"
  "isPathClosed (clickAppend p s) = isPathClosed s"
  "viewState (clickAppend p s) = viewState s"
  by (simp_all add: clickAppend_def snap_def updateStateAndHistory_def Let_def point_eta)

lemma appendNode_empty:
  "appendNode p [] = [\<lparr> anchor = p, ctrl1 = \<lparr> px = px p - 50, py = py p \<rparr>,
                        ctrl2 = \<lparr> px = px p + 50, py = py p \<rparr>, ntype = Corner \<rparr>]"
  by (simp add: appendNode_def)

lemma nodes_four_clicks:
  "nodes (appends squareClicks initialApp) =
     [\<lparr> anchor = \<lparr> px = 0, py = 0 \<rparr>, ctrl1 = \<lparr> px = - 50, py = 0 \<rparr>,
        ctrl2 = \<lparr> px = 25, py = 0 \<rparr>, ntype = Corner \<rparr>,
      \<lparr> anchor = \<lparr> px = 100, py = 0 \<rparr>, ctrl1 = \<lparr> px = 75, py = 0 \<rparr>,
        ctrl2 = \<lparr> px = 100, py = 25 \<rparr>, ntype = Corner \<rparr>,
      \<lparr> anchor = \<lparr> px = 100, py = 100 \<rparr>, ctrl1 = \<lparr> px = 100, py = 75 \<rparr>,
        ctrl2 = \<lparr> px = 75, py = 100 \<rparr>, ntype = Corner \<rparr>,
      \<lparr> anchor = \<lparr> px = 0, py = 100 \<rparr>, ctrl1 = \<lparr> px = 25, py = 100 \<rparr>,
        ctrl2 = \<lparr> px = 50, py = 100 \<rparr>, ntype = Corner \<rparr>]"
proof -
  have s0: "\<not> isSnapEnabled initialApp" "nodes initialApp = []" by (simp_all add: initialApp_def)
  show ?thesis
    by (simp add: appends_def squareClicks_def clickAppend_nodes s0 appendNode_empty
          appendNode_nonempty SMOOTHING_FACTOR_def)
qed

lemma square_from_clicks:
  "nodes (toggleClosePath (appends squareClicks initialApp)) = squarePath"
  "isPathClosed (toggleClosePath (appends squareClicks initialApp))"
proof -
  have c: "\<not> isPathClosed (appends squareClicks initialApp)"
    by (simp add: appends_def squareClicks_def clickAppend_nodes initialApp_def)
  show "nodes (toggleClosePath (appends squareClicks initialApp)) = squarePath"
    by (simp add: toggleClosePath_def Let_def c nodes_four_clicks update_history
          hypot_factor_cos hypot_factor_sin squarePath_def)
       (simp add: SMOOTHING_FACTOR_def)
  show "isPathClosed (toggleClosePath (appends squareClicks initialApp))"
    by (simp add: toggleClosePath_def Let_def c update_history)
qed

lemma hypot_less_iff: "0 \<le> c \<Longrightarrow> hypot a b < c \<longleftrightarrow> a * a + b * b < c * c"
proof -
  assume c: "0 \<le> c"
  have "hypot a b < c \<longleftrightarrow> sqrt (a * a + b * b) < sqrt (c * c)"
    using c by (simp add: hypot_def)
  then show ?thesis by (simp only: real_sqrt_less_iff)
qed

lemma upt31: "[0..<31] = [0,1,2,3,4,5,6,7,8,9,10,11,12,13,14,15,16,17,18,19,20,21,22,23,24,25,26,27,28,29,30]"
  by code_simp

lemma lineClicks_state:
  "nodes (appends lineClicks initialApp) =
     [\<lparr> anchor = \<lparr> px = 0, py = 0 \<rparr>, ctrl1 = \<lparr> px = - 50, py = 0 \<rparr>,
        ctrl2 = \<lparr> px = 25, py = 0 \<rparr>, ntype = Corner \<rparr>,
      \<lparr> anchor = \<lparr> px = 100, py = 0 \<rparr>, ctrl1 = \<lparr> px = 75, py = 0 \<rparr>,
        ctrl2 = \<lparr> px = 150, py = 0 \<rparr>, ntype = Corner \<rparr>]"
  "\<not> isPathClosed (appends lineClicks initialApp)"
  "viewState (appends lineClicks initialApp) = \<lparr> zoom = 0.25, pan = \<lparr> px = 0, py = 0 \<rparr> \<rparr>"
proof -
  have s0: "\<not> isSnapEnabled initialApp" "nodes initialApp = []" by (simp_all add: initialApp_def)
  show "nodes (appends lineClicks initialApp) =
     [\<lparr> anchor = \<lparr> px = 0, py = 0 \<rparr>, ctrl1 = \<lparr> px = - 50, py = 0 \<rparr>,
        ctrl2 = \<lparr> px = 25, py = 0 \<rparr>, ntype = Corner \<rparr>,
      \<lparr> anchor = \<lparr> px = 100, py = 0 \<rparr>, ctrl1 = \<lparr> px = 75, py = 0 \<rparr>,
        ctrl2 = \<lparr> px = 150, py = 0 \<rparr>, ntype = Corner \<rparr>]"
    by (simp add: appends_def lineClicks_def clickAppend_nodes s0 appendNode_empty
          appendNode_nonempty SMOOTHING_FACTOR_def)
  show "\<not> isPathClosed (appends lineClicks initialApp)"
    by (simp add: appends_def lineClicks_def clickAppend_nodes initialApp_def)
  show "viewState (appends lineClicks initialApp) = \<lparr> zoom = 0.25, pan = \<lparr> px = 0, py = 0 \<rparr> \<rparr>"
    by (simp add: appends_def lineClicks_def clickAppend_nodes initialApp_def)
qed

lemma press_on_line_inserts:
  "hitLoop \<lparr> px = 50, py = 5 \<rparr> (appends lineClicks initialApp)
      (rev [0..<length (nodes (appends lineClicks initialApp))]) = None"
  "findInsertPos \<lparr> px = 50, py = 5 \<rparr> (appends lineClicks initialApp) = Some (0, 1 / 2)"
proof -
  show "hitLoop \<lparr> px = 50, py = 5 \<rparr> (appends lineClicks initialApp)
      (rev [0..<length (nodes (appends lineClicks initialApp))]) = None"
    by (simp add: lineClicks_state upt_rec hitNode_def Let_def hypot_less_iff)
  show "findInsertPos \<lparr> px = 50, py = 5 \<rparr> (appends lineClicks initialApp) = Some (0, 1 / 2)"
    unfolding findInsertPos_def
    by (simp add: lineClicks_state insertStep_def findClosestPointOnCubicBezier_def upt31
        closestStep_def getPointOnCubicBezier_def Let_def steps_def power2_eq_square
        INSERT_THRESHOLD_def)
qed

text \<open>
  After clicks at (0,0) and (100,0), a press at the world point (50, 5) hits no anchor and
  takes the insertion branch, for segment 0 at \<open>t = 1/2\<close>.
\<close>

lemma lineClicks_flags:
  "\<not> isSpacePressed (appends lineClicks initialApp)"
  "symmetryState (appends lineClicks initialApp) = Inactive"
  by (simp_all add: appends_def lineClicks_def clickAppend_def updateStateAndHistory_def
        Let_def initialApp_def)

lemma press_takes_insert_branch:
  "handleMouseDownBranch pressEvent (appends lineClicks initialApp) = InsertAt 0 (1 / 2)"
proof -
  let ?s = "appends lineClicks initialApp"
  have p: "getSVGCoordinates pressEvent ?s = Some \<lparr> px = 50, py = 5 \<rparr>"
    by (simp add: getSVGCoordinates_def pressEvent_def toWorld_def lineClicks_state(3))
  have l: "length (nodes ?s) > 0" by (simp add: lineClicks_state(1))
  show ?thesis
    unfolding handleMouseDownBranch_def
    by (simp only: lineClicks_flags p press_on_line_inserts l if_False if_True option.case
          SymmetryState.distinct prod.case)
qed

section \<open>Insertion on a segment\<close>

lemma split_left:
  "getPointOnCubicBezier u p0 (lerp t p0 p1) (lerp t (lerp t p0 p1) (lerp t p1 p2))
      (lerp t (lerp t (lerp t p0 p1) (lerp t p1 p2)) (lerp t (lerp t p1 p2) (lerp t p2 p3)))
   = getPointOnCubicBezier (t * u) p0 p1 p2 p3"
  by (simp add: getPointOnCubicBezier_def lerp_def Let_def) algebra

lemma split_right:
  "getPointOnCubicBezier u
      (lerp t (lerp t (lerp t p0 p1) (lerp t p1 p2)) (lerp t (lerp t p1 p2) (lerp t p2 p3)))
      (lerp t (lerp t p1 p2) (lerp t p2 p3)) (lerp t p2 p3) p3
   = getPointOnCubicBezier (t + (1 - t) * u) p0 p1 p2 p3"
  by (simp add: getPointOnCubicBezier_def lerp_def Let_def) algebra

lemma split_anchor:
  "lerp t (lerp t (lerp t p0 p1) (lerp t p1 p2)) (lerp t (lerp t p1 p2) (lerp t p2 p3))
   = getPointOnCubicBezier t p0 p1 p2 p3"
  by (simp add: getPointOnCubicBezier_def lerp_def Let_def) algebra

lemma insertNode_nodes:
  fixes ns :: "Node list" and index :: nat and t :: real
  assumes "index < length ns"
  defines "nx \<equiv> (index + 1) mod length ns"
  defines "p0 \<equiv> anchor (ns ! index)" and "p1 \<equiv> ctrl2 (ns ! index)"
    and "p2 \<equiv> ctrl1 (ns ! nx)" and "p3 \<equiv> anchor (ns ! nx)"
  defines "r \<equiv> insertNode ns index t"
  shows "length r = length ns + 1"
    and "anchor (r ! index) = p0"
    and "ctrl2 (r ! index) = lerp t p0 p1"
    and "r ! (index + 1) =
          \<lparr> anchor = lerp t (lerp t (lerp t p0 p1) (lerp t p1 p2)) (lerp t (lerp t p1 p2) (lerp t p2 p3)),
            ctrl1 = lerp t (lerp t p0 p1) (lerp t p1 p2),
            ctrl2 = lerp t (lerp t p1 p2) (lerp t p2 p3), ntype = Smooth \<rparr>"
    and "ctrl1 (r ! ((index + 2) mod (length ns + 1))) = lerp t p2 p3"
    and "anchor (r ! ((index + 2) mod (length ns + 1))) = p3"
proof -
  let ?n = "length ns"
  let ?n1 = "ns[index := (ns ! index)\<lparr> ctrl2 := lerp t p0 p1 \<rparr>]"
  let ?n2 = "?n1[nx := (?n1 ! nx)\<lparr> ctrl1 := lerp t p2 p3 \<rparr>]"
  let ?new = "\<lparr> anchor = lerp t (lerp t (lerp t p0 p1) (lerp t p1 p2)) (lerp t (lerp t p1 p2) (lerp t p2 p3)),
            ctrl1 = lerp t (lerp t p0 p1) (lerp t p1 p2),
            ctrl2 = lerp t (lerp t p1 p2) (lerp t p2 p3), ntype = Smooth \<rparr>"
  have r: "r = take (index + 1) ?n2 @ [?new] @ drop (index + 1) ?n2"
    unfolding r_def insertNode_def Let_def p0_def p1_def p2_def p3_def nx_def by simp
  have len2: "length ?n2 = ?n" by simp
  have nx_lt: "nx < ?n" unfolding nx_def using assms(1) by (intro mod_less_divisor) auto
  show "length r = ?n + 1" unfolding r using assms(1) by simp
  have at_index: "r ! index = ?n2 ! index"
    unfolding r using assms(1) by (simp add: nth_append)
  have n2_index_anchor: "anchor (?n2 ! index) = p0"
    using assms(1) nx_lt by (cases "nx = index") (simp_all add: p0_def)
  have n2_index_ctrl2: "ctrl2 (?n2 ! index) = lerp t p0 p1"
    using assms(1) nx_lt by (cases "nx = index") simp_all
  show "anchor (r ! index) = p0" using at_index n2_index_anchor by simp
  show "ctrl2 (r ! index) = lerp t p0 p1" using at_index n2_index_ctrl2 by simp
  show "r ! (index + 1) = ?new"
    unfolding r using assms(1) by (simp add: nth_append)
  have n2_nx: "ctrl1 (?n2 ! nx) = lerp t p2 p3" "anchor (?n2 ! nx) = p3"
    using assms(1) nx_lt by (cases "nx = index"; simp add: p3_def)+
  have "r ! ((index + 2) mod (?n + 1)) = ?n2 ! nx"
  proof (cases "index + 1 < ?n")
    case True
    then have "(index + 2) mod (?n + 1) = index + 2" "nx = index + 1"
      by (simp_all add: nx_def)
    then show ?thesis unfolding r using True by (simp add: nth_append)
  next
    case False
    then have e: "index + 1 = ?n" using assms(1) by simp
    then have "(index + 2) mod (?n + 1) = 0" "nx = 0"
      by (simp_all add: nx_def)
    moreover have "ns \<noteq> []" using assms(1) by auto
    ultimately show ?thesis unfolding r using e by (simp add: nth_append)
  qed
  then show "ctrl1 (r ! ((index + 2) mod (?n + 1))) = lerp t p2 p3"
    and "anchor (r ! ((index + 2) mod (?n + 1))) = p3"
    using n2_nx by simp_all
qed

lemma insertNode_preserves_curve:
  assumes "index < length ns"
  shows "segmentPoint (insertNode ns index t) index u = segmentPoint ns index (t * u)"
    and "segmentPoint (insertNode ns index t) (index + 1) u = segmentPoint ns index (t + (1 - t) * u)"
    and "anchor (insertNode ns index t ! (index + 1)) = segmentPoint ns index t"
    and "ntype (insertNode ns index t ! (index + 1)) = Smooth"
    and "length (insertNode ns index t) = length ns + 1"
proof -
  note f = insertNode_nodes[OF assms, of t]
  have lt: "(index + 1) mod (length ns + 1) = index + 1" using assms by simp
  show "segmentPoint (insertNode ns index t) index u = segmentPoint ns index (t * u)"
    unfolding segmentPoint_def f(1) lt f(2) f(3) f(4)
    by (simp add: split_left)
  show "segmentPoint (insertNode ns index t) (index + 1) u = segmentPoint ns index (t + (1 - t) * u)"
    unfolding segmentPoint_def f(1) f(4)
    using f(5) f(6) by (simp add: split_right)
  show "anchor (insertNode ns index t ! (index + 1)) = segmentPoint ns index t"
    unfolding f(4) segmentPoint_def by (simp add: split_anchor)
  show "ntype (insertNode ns index t ! (index + 1)) = Smooth"
    unfolding f(4) by simp
  show "length (insertNode ns index t) = length ns + 1" by (rule f(1))
qed

lemma insertStep_good:
  "goodPos n (fst acc) \<Longrightarrow> i < n \<Longrightarrow> goodPos n (fst (insertStep point ns acc i))"
proof -
  assume g: "goodPos n (fst acc)" and i: "i < n"
  obtain d tb where f: "findClosestPointOnCubicBezier point (anchor (ns ! i)) (ctrl2 (ns ! i))
      (ctrl1 (ns ! ((i + 1) mod length ns))) (anchor (ns ! ((i + 1) mod length ns))) = (Fin d, tb)"
      "0 \<le> tb" "tb \<le> 1"
    using findClosest_finite by blast
  show ?thesis using g i f by (cases acc) (simp add: insertStep_def Let_def goodPos_def)
qed

lemma insert_fold_good:
  "goodPos n (fst acc) \<Longrightarrow> \<forall>i \<in> set xs. i < n \<Longrightarrow>
     goodPos n (fst (foldl (insertStep point ns) acc xs))"
  by (induction xs arbitrary: acc) (simp_all add: insertStep_good)

lemma findInsertPos_good:
  assumes "findInsertPos point s = Some (index, t)"
  shows "index < length (nodes s) \<and> 0 \<le> t \<and> t \<le> 1"
proof -
  have "goodPos (length (nodes s)) (findInsertPos point s)"
    unfolding findInsertPos_def
    by (rule insert_fold_good) (auto simp: goodPos_def)
  then show ?thesis using assms by (simp add: goodPos_def)
qed

text \<open>
  C4. A position returned by the insertion search is a node index and a parameter \<open>t\<close> in
  \<open>[0, 1]\<close>. Splitting segment \<open>index\<close> at (any) \<open>t\<close> leaves the curve where it was: the
  new segment \<open>index\<close> at \<open>u\<close> is the old segment at \<open>t * u\<close>, the new segment
  \<open>index + 1\<close> at \<open>u\<close> is the old segment at \<open>t + (1 - t) * u\<close>, and the inserted node is a
  smooth node whose anchor is the old segment's point at \<open>t\<close>.
\<close>

theorem insert_on_segment_preserves_curve:
  "(findInsertPos point s = Some (index, t) \<longrightarrow>
       index < length (nodes s) \<and> 0 \<le> t \<and> t \<le> 1)
   \<and> (index < length ns \<longrightarrow>
       (\<forall>u. segmentPoint (insertNode ns index t) index u = segmentPoint ns index (t * u))
     \<and> (\<forall>u. segmentPoint (insertNode ns index t) (index + 1) u
              = segmentPoint ns index (t + (1 - t) * u))
     \<and> anchor (insertNode ns index t ! (index + 1)) = segmentPoint ns index t
     \<and> ntype (insertNode ns index t ! (index + 1)) = Smooth
     \<and> length (insertNode ns index t) = length ns + 1)"
  using findInsertPos_good[of point s index t] insertNode_preserves_curve[of index ns t]
  by blast

theorem insert_on_segment_preserves_curve_witness:
  "findInsertPos \<lparr> px = 50, py = 5 \<rparr> (appends lineClicks initialApp) = Some (0, 1 / 2)
   \<and> 0 < length (nodes (appends lineClicks initialApp))
   \<and> segmentPoint (insertNode (nodes (appends lineClicks initialApp)) 0 (1 / 2)) 0 (1 / 2)
       = segmentPoint (nodes (appends lineClicks initialApp)) 0 (1 / 4)
   \<and> segmentPoint (insertNode (nodes (appends lineClicks initialApp)) 0 (1 / 2)) 1 (1 / 2)
       = segmentPoint (nodes (appends lineClicks initialApp)) 0 (3 / 4)
   \<and> anchor (insertNode (nodes (appends lineClicks initialApp)) 0 (1 / 2) ! 1)
       = segmentPoint (nodes (appends lineClicks initialApp)) 0 (1 / 2)
   \<and> length (insertNode (nodes (appends lineClicks initialApp)) 0 (1 / 2)) = 3"
proof -
  let ?s = "appends lineClicks initialApp"
  have a: "findInsertPos \<lparr> px = 50, py = 5 \<rparr> ?s = Some (0, 1 / 2)"
    by (rule press_on_line_inserts(2))
  note th = insert_on_segment_preserves_curve
        [where point = "\<lparr> px = 50, py = 5 \<rparr>" and s = ?s
           and index = 0 and t = "1 / 2" and ns = "nodes ?s"]
  from th a have b: "0 < length (nodes ?s)" by blast
  from th b have
    c1: "\<forall>u. segmentPoint (insertNode (nodes ?s) 0 (1 / 2)) 0 u
           = segmentPoint (nodes ?s) 0 (1 / 2 * u)" and
    c2: "\<forall>u. segmentPoint (insertNode (nodes ?s) 0 (1 / 2)) (0 + 1) u
           = segmentPoint (nodes ?s) 0 (1 / 2 + (1 - 1 / 2) * u)" and
    c3: "anchor (insertNode (nodes ?s) 0 (1 / 2) ! (0 + 1)) = segmentPoint (nodes ?s) 0 (1 / 2)" and
    c4: "length (insertNode (nodes ?s) 0 (1 / 2)) = length (nodes ?s) + 1"
    by blast+
  have one: "(0::nat) + 1 = 1" by simp
  have l: "length (nodes ?s) = 2" by (simp add: lineClicks_state(1))
  have q: "1 / 2 * (1 / 2) = (1 / 4 :: real)" "1 / 2 + (1 - 1 / 2) * (1 / 2) = (3 / 4 :: real)"
    by simp_all
  show ?thesis
    using a b c1[rule_format, of "1 / 2"] c2[rule_format, of "1 / 2"] c3 c4
    unfolding one q l by simp
qed

section \<open>Node objects shared with the history\<close>

lemma oneClick_value:
  "appendNodeH \<lparr> px = 0, py = 0 \<rparr> initialHeapApp =
     \<lparr> heap = [\<lparr> anchor = \<lparr> px = 0, py = 0 \<rparr>, ctrl1 = \<lparr> px = - 50, py = 0 \<rparr>,
                 ctrl2 = \<lparr> px = 50, py = 0 \<rparr>, ntype = Corner \<rparr>],
       nodeRefs = [0], closedFlag = False,
       historyRefs = [([], False), ([0], False)], historyIdx = 1 \<rparr>"
  by (simp add: appendNodeH_def initialHeapApp_def alloc_def updateStateAndHistoryH_def Let_def)

lemma twoClicks_value:
  "twoClicks =
     \<lparr> heap = [\<lparr> anchor = \<lparr> px = 0, py = 0 \<rparr>, ctrl1 = \<lparr> px = - 50, py = 0 \<rparr>,
                 ctrl2 = \<lparr> px = 50, py = 0 \<rparr>, ntype = Corner \<rparr>,
               \<lparr> anchor = \<lparr> px = 100, py = 0 \<rparr>, ctrl1 = \<lparr> px = 75, py = 0 \<rparr>,
                 ctrl2 = \<lparr> px = 150, py = 0 \<rparr>, ntype = Corner \<rparr>,
               \<lparr> anchor = \<lparr> px = 0, py = 0 \<rparr>, ctrl1 = \<lparr> px = - 50, py = 0 \<rparr>,
                 ctrl2 = \<lparr> px = 25, py = 0 \<rparr>, ntype = Corner \<rparr>],
       nodeRefs = [2, 1], closedFlag = False,
       historyRefs = [([], False), ([0], False), ([2, 1], False)], historyIdx = 2 \<rparr>"
  unfolding twoClicks_def oneClick_value
  by (simp add: appendNodeH_def alloc_def updateStateAndHistoryH_def Let_def
        hypot_factor_cos hypot_factor_sin)
     (simp add: SMOOTHING_FACTOR_def)

lemma twoClicks_is_lineClicks:
  "deref (heap twoClicks) (nodeRefs twoClicks) = nodes (appends lineClicks initialApp)"
  by (simp add: twoClicks_value lineClicks_state deref_def)

text \<open>
  The append and the drag copy before they write: every object that existed before stays as
  it was.
\<close>

lemma appendNodeH_keeps_objects:
  "r < length (heap s) \<Longrightarrow> heap (appendNodeH p s) ! r = heap s ! r"
  by (simp add: appendNodeH_def alloc_def updateStateAndHistoryH_def Let_def nth_append)

lemma dragNodeH_keeps_objects:
  "r < length (heap s) \<Longrightarrow> heap (dragNodeH index ty p s) ! r = heap s ! r"
  by (simp add: dragNodeH_def alloc_def Let_def nth_append)

lemma insertNodeH_twoClicks:
  "insertNodeH 0 (1 / 2) twoClicks =
     \<lparr> heap = [\<lparr> anchor = \<lparr> px = 0, py = 0 \<rparr>, ctrl1 = \<lparr> px = - 50, py = 0 \<rparr>,
                 ctrl2 = \<lparr> px = 50, py = 0 \<rparr>, ntype = Corner \<rparr>,
               \<lparr> anchor = \<lparr> px = 100, py = 0 \<rparr>, ctrl1 = \<lparr> px = 175 / 2, py = 0 \<rparr>,
                 ctrl2 = \<lparr> px = 150, py = 0 \<rparr>, ntype = Corner \<rparr>,
               \<lparr> anchor = \<lparr> px = 0, py = 0 \<rparr>, ctrl1 = \<lparr> px = - 50, py = 0 \<rparr>,
                 ctrl2 = \<lparr> px = 25 / 2, py = 0 \<rparr>, ntype = Corner \<rparr>,
               \<lparr> anchor = \<lparr> px = 50, py = 0 \<rparr>, ctrl1 = \<lparr> px = 125 / 4, py = 0 \<rparr>,
                 ctrl2 = \<lparr> px = 275 / 4, py = 0 \<rparr>, ntype = Smooth \<rparr>],
       nodeRefs = [2, 3, 1], closedFlag = False,
       historyRefs = [([], False), ([0], False), ([2, 1], False), ([2, 3, 1], False)],
       historyIdx = 3 \<rparr>"
  unfolding twoClicks_value
  by (simp add: insertNodeH_def alloc_def updateStateAndHistoryH_def Let_def lerp_def)

text \<open>
  C3. After clicks at (0,0) and (100,0), the history entry at the current index is the
  snapshot of the live path. Inserting on segment 0 at \<open>t = 1/2\<close> leaves that entry's array
  in place and changes the nodes it holds: the first node's \<open>ctrl2\<close> goes from (25, 0) to
  (12.5, 0) and the second node's \<open>ctrl1\<close> from (75, 0) to (87.5, 0). An undo after the
  insertion therefore does not bring back the path from before it.
\<close>

theorem insert_mutates_history_snapshot:
  "historyRefs twoClicks ! historyIdx twoClicks = (nodeRefs twoClicks, closedFlag twoClicks)
   \<and> historyRefs (insertNodeH 0 (1 / 2) twoClicks) ! historyIdx twoClicks
        = historyRefs twoClicks ! historyIdx twoClicks
   \<and> ctrl2 (deref (heap twoClicks) (fst (historyRefs twoClicks ! historyIdx twoClicks)) ! 0)
        = \<lparr> px = 25, py = 0 \<rparr>
   \<and> ctrl2 (deref (heap (insertNodeH 0 (1 / 2) twoClicks))
               (fst (historyRefs twoClicks ! historyIdx twoClicks)) ! 0)
        = \<lparr> px = 25 / 2, py = 0 \<rparr>
   \<and> ctrl1 (deref (heap twoClicks) (fst (historyRefs twoClicks ! historyIdx twoClicks)) ! 1)
        = \<lparr> px = 75, py = 0 \<rparr>
   \<and> ctrl1 (deref (heap (insertNodeH 0 (1 / 2) twoClicks))
               (fst (historyRefs twoClicks ! historyIdx twoClicks)) ! 1)
        = \<lparr> px = 175 / 2, py = 0 \<rparr>
   \<and> (case undoH (insertNodeH 0 (1 / 2) twoClicks) of
         Inl e \<Rightarrow> False
       | Inr u \<Rightarrow> deref (heap u) (nodeRefs u) \<noteq> deref (heap twoClicks) (nodeRefs twoClicks))"
  unfolding insertNodeH_twoClicks
  by (simp add: twoClicks_value deref_def undoH_def)

text \<open>
  The link between the two levels: on a well-formed state the insertion, the append and the
  drag compute, as the node values of the new live array, what their value-level
  definitions compute.
\<close>

lemma deref_update:
  assumes "distinct rs" "i < length rs" "\<forall>r \<in> set rs. r < length h"
  shows "deref (h[rs ! i := v]) rs = (deref h rs)[i := v]"
proof (rule nth_equalityI)
  show "length (deref (h[rs ! i := v]) rs) = length ((deref h rs)[i := v])"
    by (simp add: deref_def)
next
  fix j assume "j < length (deref (h[rs ! i := v]) rs)"
  then have j: "j < length rs" by (simp add: deref_def)
  have "rs ! j = rs ! i \<longleftrightarrow> j = i"
    using assms(1,2) j by (simp add: nth_eq_iff_index_eq)
  moreover have "rs ! i < length h" using assms(2,3) by simp
  ultimately show "deref (h[rs ! i := v]) rs ! j = (deref h rs)[i := v] ! j"
    using j assms(2) by (auto simp add: deref_def nth_list_update)
qed

lemma deref_alloc:
  assumes "\<forall>r \<in> set rs. r < length h"
  shows "deref (h @ [v]) rs = deref h rs"
  using assms by (simp add: deref_def nth_append)

lemma deref_nth: "i < length rs \<Longrightarrow> deref h rs ! i = h ! (rs ! i)"
  by (simp add: deref_def)

lemma insertNodeH_refines:
  assumes wf: "wellFormedH s" and i: "index < length (nodeRefs s)"
  shows "deref (heap (insertNodeH index t s)) (nodeRefs (insertNodeH index t s))
       = insertNode (deref (heap s) (nodeRefs s)) index t"
proof -
  let ?ns = "nodeRefs s" and ?h = "heap s"
  let ?vs = "deref ?h ?ns"
  let ?nx = "(index + 1) mod length ?ns"
  have d: "distinct ?ns" and b: "\<forall>r \<in> set ?ns. r < length ?h"
    using wf by (simp_all add: wellFormedH_def)
  have nx: "?nx < length ?ns" using i by (intro mod_less_divisor) auto
  have ri: "?ns ! index < length ?h" and rn: "?ns ! ?nx < length ?h"
    using b i nx by simp_all
  let ?p0 = "anchor (?h ! (?ns ! index))" and ?p1 = "ctrl2 (?h ! (?ns ! index))"
  let ?p2 = "ctrl1 (?h ! (?ns ! ?nx))" and ?p3 = "anchor (?h ! (?ns ! ?nx))"
  let ?new = "\<lparr> anchor = lerp t (lerp t (lerp t ?p0 ?p1) (lerp t ?p1 ?p2))
                             (lerp t (lerp t ?p1 ?p2) (lerp t ?p2 ?p3)),
                 ctrl1 = lerp t (lerp t ?p0 ?p1) (lerp t ?p1 ?p2),
                 ctrl2 = lerp t (lerp t ?p1 ?p2) (lerp t ?p2 ?p3), ntype = Smooth \<rparr>"
  let ?h1 = "?h @ [?new]"
  let ?h2 = "?h1[?ns ! index := (?h1 ! (?ns ! index))\<lparr> ctrl2 := lerp t ?p0 ?p1 \<rparr>]"
  let ?h3 = "?h2[?ns ! ?nx := (?h2 ! (?ns ! ?nx))\<lparr> ctrl1 := lerp t ?p2 ?p3 \<rparr>]"
  have b1: "\<forall>r \<in> set ?ns. r < length ?h1" using b by auto
  have b2: "\<forall>r \<in> set ?ns. r < length ?h2" using b by auto
  have hp: "heap (insertNodeH index t s) = ?h3"
    and rf: "nodeRefs (insertNodeH index t s)
             = take (index + 1) ?ns @ [length ?h] @ drop (index + 1) ?ns"
    by (simp_all add: insertNodeH_def alloc_def updateStateAndHistoryH_def Let_def)
  have v1: "deref ?h1 ?ns = ?vs" using b by (rule deref_alloc)
  have v2: "deref ?h2 ?ns = ?vs[index := (?vs ! index)\<lparr> ctrl2 := lerp t ?p0 ?p1 \<rparr>]"
    using deref_update[OF d i b1] v1 deref_nth[OF i, of ?h1] by simp
  have v3: "deref ?h3 ?ns = (deref ?h2 ?ns)[?nx := (deref ?h2 ?ns ! ?nx)\<lparr> ctrl1 := lerp t ?p2 ?p3 \<rparr>]"
    using deref_update[OF d nx b2] deref_nth[OF nx, of ?h2] by simp
  have fresh: "?h3 ! length ?h = ?new"
    using ri rn by (simp add: nth_append)
  have "deref ?h3 (take (index + 1) ?ns @ [length ?h] @ drop (index + 1) ?ns)
      = take (index + 1) (deref ?h3 ?ns) @ [?new] @ drop (index + 1) (deref ?h3 ?ns)"
    unfolding deref_def using fresh by (simp add: take_map drop_map)
  also have "\<dots> = insertNode ?vs index t"
    unfolding v3 v2 insertNode_def Let_def
    using i nx by (simp add: deref_def)
  finally show ?thesis by (simp only: hp rf)
qed

lemma deref_replace:
  assumes b: "\<forall>r \<in> set rs. r < length h"
    and old: "\<And>r. r < length h \<Longrightarrow> h' ! r = h ! r"
    and new: "h' ! q = v"
  shows "deref h' (rs[i := q]) = (deref h rs)[i := v]"
proof (rule nth_equalityI)
  show "length (deref h' (rs[i := q])) = length ((deref h rs)[i := v])"
    by (simp add: deref_def)
next
  fix j assume "j < length (deref h' (rs[i := q]))"
  then have j: "j < length rs" by (simp add: deref_def)
  show "deref h' (rs[i := q]) ! j = (deref h rs)[i := v] ! j"
  proof (cases "j = i")
    case True
    then show ?thesis using j new by (simp add: deref_def)
  next
    case False
    moreover have "rs ! j < length h" using b j by simp
    ultimately show ?thesis using j old[of "rs ! j"] by (simp add: deref_def)
  qed
qed

lemma appendNodeH_refines:
  assumes "wellFormedH s"
  shows "deref (heap (appendNodeH p s)) (nodeRefs (appendNodeH p s))
       = appendNode p (deref (heap s) (nodeRefs s))"
proof (cases "nodeRefs s = []")
  case True
  then show ?thesis
    by (simp add: appendNodeH_def appendNode_def alloc_def updateStateAndHistoryH_def Let_def deref_def)
next
  case False
  let ?ns = "nodeRefs s" and ?h = "heap s"
  have b: "\<forall>r \<in> set ?ns. r < length ?h" using assms by (simp add: wellFormedH_def)
  have lastlt: "?ns ! (length ?ns - 1) < length ?h" using b False by simp
  have pos: "0 < length ?ns" using False by simp
  let ?new = "\<lparr> anchor = p, ctrl1 = \<lparr> px = px p - 50, py = py p \<rparr>,
                  ctrl2 = \<lparr> px = px p + 50, py = py p \<rparr>, ntype = Corner \<rparr>"
  let ?prev = "?h ! (?ns ! (length ?ns - 1))"
  let ?dx = "px p - px (anchor ?prev)" and ?dy = "py p - py (anchor ?prev)"
  let ?dist = "hypot ?dx ?dy * SMOOTHING_FACTOR"
  let ?upd = "?prev\<lparr> ctrl2 := \<lparr> px = px (anchor ?prev) + ?dist * cos (atan2 ?dy ?dx),
                                  py = py (anchor ?prev) + ?dist * sin (atan2 ?dy ?dx) \<rparr> \<rparr>"
  let ?new' = "?new\<lparr> ctrl1 := \<lparr> px = px p - ?dist * cos (atan2 ?dy ?dx),
                                 py = py p - ?dist * sin (atan2 ?dy ?dx) \<rparr> \<rparr>"
  let ?h3 = "(?h @ [?new] @ [?upd])[length ?h := ?new']"
  have hp: "heap (appendNodeH p s) = ?h3"
    and rf: "nodeRefs (appendNodeH p s) = ?ns[length ?ns - 1 := Suc (length ?h)] @ [length ?h]"
    using pos lastlt
    by (simp_all add: appendNodeH_def alloc_def updateStateAndHistoryH_def Let_def nth_append)
  have old: "r < length ?h \<Longrightarrow> ?h3 ! r = ?h ! r" for r
    by (simp add: nth_append)
  have n1: "?h3 ! length ?h = ?new'" by simp
  have n2: "?h3 ! Suc (length ?h) = ?upd" by (simp add: nth_append)
  have "deref ?h3 (?ns[length ?ns - 1 := Suc (length ?h)]) = (deref ?h ?ns)[length ?ns - 1 := ?upd]"
    using b old n2 by (rule deref_replace)
  then have "deref ?h3 (?ns[length ?ns - 1 := Suc (length ?h)] @ [length ?h])
      = (deref ?h ?ns)[length ?ns - 1 := ?upd] @ [?new']"
    using n1 by (simp add: deref_def)
  also have "\<dots> = appendNode p (deref ?h ?ns)"
    using pos by (simp add: appendNode_def Let_def deref_def)
  finally show ?thesis by (simp only: hp rf)
qed

lemma dragNodeH_refines:
  assumes "wellFormedH s" "index < length (nodeRefs s)"
  shows "deref (heap (dragNodeH index ty p s)) (nodeRefs (dragNodeH index ty p s))
       = (deref (heap s) (nodeRefs s))[index := dragNode ty p (deref (heap s) (nodeRefs s) ! index)]"
proof -
  let ?ns = "nodeRefs s" and ?h = "heap s"
  have b: "\<forall>r \<in> set ?ns. r < length ?h" using assms(1) by (simp add: wellFormedH_def)
  let ?v = "dragNode ty p (?h ! (?ns ! index))"
  have hp: "heap (dragNodeH index ty p s) = ?h @ [?v]"
    and rf: "nodeRefs (dragNodeH index ty p s) = ?ns[index := length ?h]"
    by (simp_all add: dragNodeH_def alloc_def Let_def)
  have "deref (?h @ [?v]) (?ns[index := length ?h]) = (deref ?h ?ns)[index := ?v]"
    using b by (rule deref_replace) (simp_all add: nth_append)
  then show ?thesis using assms(2) by (simp add: hp rf deref_def)
qed

section \<open>Handlers and the operations they call\<close>

lemma handleMouseUp_click:
  assumes "getSVGCoordinates ev s = Some point" "draggedInfo s = None" "\<not> wasDragging s"
    "\<not> ctrlKey ev" "\<not> isSpacePressed s" "\<not> isPanning s"
  shows "handleMouseUp ev s = (clickAppend point s)\<lparr> draggedInfo := None, mouseDownPos := None \<rparr>"
  using assms by (simp add: handleMouseUp_def Let_def)

lemma handleMouseMove_drag:
  assumes "\<not> isPanning s" "mouseDownPos s = Some downPos" "getSVGCoordinates ev s = Some point"
    "draggedInfo s = Some (index, ty)" "index < length (nodes s)"
  shows "\<exists>s'. handleMouseMove ev s = Inr s' \<and>
           nodes s' = (nodes s)[index := dragNode ty \<lparr> px = snap s (px point), py = snap s (py point) \<rparr>
                                           (nodes s ! index)]"
  using assms by (simp add: handleMouseMove_def Let_def)

end
